theory Spec2Isabelle
  imports Complex_Main
begin

section \<open>Bandit strategies of deebo/algos.py\<close>

text \<open>
  The module holds nine classes (Random, EpsilonGreedy, AnnealingEpsilonGreedy, Boltzmann,
  AnnealingBoltzmann, Pursuit, ReinforcementComparison, UCB1, UCB1Tuned), each with the
  methods \<open>reset\<close>, \<open>select_next_arm\<close> and \<open>update\<close>. An object is a value of the
  datatype \<open>strategy\<close>: one constructor per class, its arguments the attributes in the
  order of \<open>__init__\<close>. A method takes the object and returns what the call returns (or
  the exception it raises) together with the object as the call leaves it, so that an
  assignment made before an exception is kept, as in Python.

  Python floats are read as real numbers (the constant \<open>1e-7\<close> as \<open>1 / 10 ^ 7\<close>): rounding
  and the overflow of \<open>math.exp\<close> are outside the model. Python integers are unbounded;
  the integers of numpy are 64-bit and wrap around, which \<open>np.sum(self.counts) + 1\<close>
  shows. The attributes of one object are taken to be distinct lists, as \<open>reset\<close> makes
  them.
\<close>

subsection \<open>Exceptions and results\<close>

datatype py_error = IndexError | ZeroDivisionError | ValueError

datatype 'a result = Return 'a | Raise py_error

definition bind_result :: "'a result \<Rightarrow> ('a \<Rightarrow> 'b result) \<Rightarrow> 'b result" where
  "bind_result m f = (case m of Raise e \<Rightarrow> Raise e | Return x \<Rightarrow> f x)"

text \<open>A list comprehension whose element expression may raise: left to right, the first
  exception ends it.\<close>

fun map_result :: "('a \<Rightarrow> 'b result) \<Rightarrow> 'a list \<Rightarrow> 'b list result" where
  "map_result f [] = Return []"
| "map_result f (x # xs) =
     bind_result (f x) (\<lambda>y. bind_result (map_result f xs) (\<lambda>ys. Return (y # ys)))"

subsection \<open>Python and numpy primitives\<close>

text \<open>\<open>xs[i]\<close> on a list: an index from \<open>-len(xs)\<close> to \<open>len(xs) - 1\<close> is accepted, a negative
  one counting from the end; any other raises IndexError.\<close>

definition py_index :: "'a list \<Rightarrow> int \<Rightarrow> nat result" where
  "py_index xs i =
     (let n = int (length xs)
      in if 0 \<le> i \<and> i < n then Return (nat i)
         else if - n \<le> i \<and> i < 0 then Return (nat (i + n))
         else Raise IndexError)"

text \<open>\<open>math.log\<close> and \<open>math.sqrt\<close> raise ValueError outside their domains; float division
  raises ZeroDivisionError.\<close>

definition py_log :: "real \<Rightarrow> real result" where
  "py_log x = (if x \<le> 0 then Raise ValueError else Return (ln x))"

definition py_sqrt :: "real \<Rightarrow> real result" where
  "py_sqrt x = (if x < 0 then Raise ValueError else Return (sqrt x))"

definition py_div :: "real \<Rightarrow> real \<Rightarrow> real result" where
  "py_div x y = (if y = 0 then Raise ZeroDivisionError else Return (x / y))"

text \<open>\<open>np.argmax\<close>: the first index of the greatest element; ValueError on an empty
  sequence.\<close>

fun argmax_from :: "nat \<Rightarrow> real \<Rightarrow> nat \<Rightarrow> real list \<Rightarrow> nat" where
  "argmax_from best bv i [] = best"
| "argmax_from best bv i (x # xs) =
     (if bv < x then argmax_from i x (Suc i) xs else argmax_from best bv (Suc i) xs)"

definition np_argmax :: "real list \<Rightarrow> int result" where
  "np_argmax xs = (case xs of [] \<Rightarrow> Raise ValueError
                   | x # rest \<Rightarrow> Return (int (argmax_from 0 x 1 rest)))"

text \<open>The module \<open>random\<close> is not part of the repository: what its calls return (or raise)
  is a parameter of \<open>select_next_arm\<close>. \<open>rand_random\<close> is the value of
  \<open>random.random()\<close>, \<open>rand_randrange n\<close> the outcome of \<open>random.randrange(n)\<close> and
  \<open>rand_choices population weights\<close> the outcome of
  \<open>random.choices(population, weights=weights, k=1)[0]\<close>.\<close>

record draws =
  rand_random :: real
  rand_randrange :: "int \<Rightarrow> int result"
  rand_choices :: "int list \<Rightarrow> real list \<Rightarrow> int result"

subsection \<open>The classes\<close>

datatype strategy =
    Random (counts: "int list") (emp_means: "real list")
  | EpsilonGreedy (epsilon: real) (counts: "int list") (emp_means: "real list")
  | AnnealingEpsilonGreedy (counts: "int list") (emp_means: "real list")
  | Boltzmann (tau: real) (counts: "int list") (emp_means: "real list")
  | AnnealingBoltzmann (counts: "int list") (emp_means: "real list")
  | Pursuit (lr: real) (counts: "int list") (emp_means: "real list") (probs: "real list")
  | ReinforcementComparison (alpha: real) (beta: real) (counts: "int list")
      (emp_means: "real list") (preferences: "real list") (exp_rewards: "real list")
      (probs: "real list")
  | UCB1 (counts: "int list") (emp_means: "real list") (ucbs: "real list")
  | UCB1Tuned (counts: "int list") (emp_means: "real list") (M2: "real list")
      (ucbs: "real list")

subsection \<open>reset\<close>

text \<open>\<open>range(n_arms)\<close> is empty for \<open>n_arms \<le> 0\<close>, so \<open>1/n_arms\<close> is evaluated only for a
  positive \<open>n_arms\<close> and \<open>reset\<close> raises nothing.\<close>

fun reset :: "strategy \<Rightarrow> int \<Rightarrow> strategy" where
  "reset (Random cs ms) n_arms = Random (replicate (nat n_arms) 0) (replicate (nat n_arms) 0)"
| "reset (EpsilonGreedy eps cs ms) n_arms =
     EpsilonGreedy eps (replicate (nat n_arms) 0) (replicate (nat n_arms) 0)"
| "reset (AnnealingEpsilonGreedy cs ms) n_arms =
     AnnealingEpsilonGreedy (replicate (nat n_arms) 0) (replicate (nat n_arms) 0)"
| "reset (Boltzmann t cs ms) n_arms =
     Boltzmann t (replicate (nat n_arms) 0) (replicate (nat n_arms) 0)"
| "reset (AnnealingBoltzmann cs ms) n_arms =
     AnnealingBoltzmann (replicate (nat n_arms) 0) (replicate (nat n_arms) 0)"
| "reset (Pursuit l cs ms ps) n_arms =
     Pursuit l (replicate (nat n_arms) 0) (replicate (nat n_arms) 0)
       (replicate (nat n_arms) (1 / real_of_int n_arms))"
| "reset (ReinforcementComparison al be cs ms prefs ers ps) n_arms =
     ReinforcementComparison al be (replicate (nat n_arms) 0) (replicate (nat n_arms) 0)
       (replicate (nat n_arms) 0) (replicate (nat n_arms) 0)
       (replicate (nat n_arms) (1 / real_of_int n_arms))"
| "reset (UCB1 cs ms us) n_arms =
     UCB1 (replicate (nat n_arms) 0) (replicate (nat n_arms) 0) (replicate (nat n_arms) 0)"
| "reset (UCB1Tuned cs ms m2 us) n_arms =
     UCB1Tuned (replicate (nat n_arms) 0) (replicate (nat n_arms) 0)
       (replicate (nat n_arms) 0) (replicate (nat n_arms) 0)"

subsection \<open>update\<close>

text \<open>The first five lines of every \<open>update\<close>: the pull count of the chosen arm goes up by
  one and its empirical mean becomes \<open>((n - 1) / n) * value + (1 / n) * reward\<close>. The result
  is the pair of the old and the new mean, with the two lists as the lines leave them.\<close>

definition update_mean ::
  "int list \<Rightarrow> real list \<Rightarrow> int \<Rightarrow> real \<Rightarrow> (real \<times> real) result \<times> int list \<times> real list" where
  "update_mean cs ms chosen_arm reward =
     (case py_index cs chosen_arm of
        Raise e \<Rightarrow> (Raise e, cs, ms)
      | Return i \<Rightarrow>
          let cs' = cs[i := cs ! i + 1];
              n = cs' ! i
          in (case py_index ms chosen_arm of
                Raise e \<Rightarrow> (Raise e, cs', ms)
              | Return j \<Rightarrow>
                  let val = ms ! j
                  in if n = 0 then (Raise ZeroDivisionError, cs', ms)
                     else let new_value =
                                (real_of_int (n - 1) / real_of_int n) * val
                                  + (1 / real_of_int n) * reward
                          in (Return (val, new_value), cs', ms[j := new_value])))"

text \<open>The loop of \<open>Pursuit.update\<close> over \<open>range(len(self.counts))\<close>.\<close>

fun pursuit_loop :: "real \<Rightarrow> real list \<Rightarrow> nat list \<Rightarrow> real list \<Rightarrow> unit result \<times> real list" where
  "pursuit_loop l ms [] ps = (Return (), ps)"
| "pursuit_loop l ms (ii # rest) ps =
     (if length ps \<le> ii then (Raise IndexError, ps)
      else let current_prob = ps ! ii
           in (case np_argmax ms of
                 Raise e \<Rightarrow> (Raise e, ps)
               | Return best \<Rightarrow>
                   if int ii = best
                   then pursuit_loop l ms rest (ps[ii := current_prob + l * (1 - current_prob)])
                   else pursuit_loop l ms rest (ps[ii := current_prob + l * (0 - current_prob)])))"

text \<open>\<open>UCB1._update_ucbs\<close>: the bonus of one arm, then the new list of bounds.\<close>

definition ucb1_bonus :: "int list \<Rightarrow> nat \<Rightarrow> real result" where
  "ucb1_bonus cs arm =
     bind_result (py_log (real_of_int (sum_list cs + 1))) (\<lambda>lg.
     bind_result (py_div (2 * lg) (real_of_int (cs ! arm) + 1 / 10 ^ 7)) py_sqrt)"

definition ucb1_update_ucbs :: "int list \<Rightarrow> real list \<Rightarrow> real list result" where
  "ucb1_update_ucbs cs ms =
     bind_result (map_result (ucb1_bonus cs) [0 ..< length cs]) (\<lambda>bonuses.
     Return (map (\<lambda>(e, b). e + b) (zip ms bonuses)))"

text \<open>\<open>UCB1Tuned._update_ucbs\<close>: the list \<open>Vs\<close>, the list \<open>mins\<close>, the bonuses, the bounds.\<close>

definition tuned_V :: "int list \<Rightarrow> real list \<Rightarrow> nat \<Rightarrow> real result" where
  "tuned_V cs m2 arm =
     (if length m2 \<le> arm then Raise IndexError
      else bind_result (py_div (m2 ! arm) (real_of_int (cs ! arm) + 1 / 10 ^ 7)) (\<lambda>q.
           bind_result (py_log (real_of_int (sum_list cs + 1))) (\<lambda>lg.
           bind_result (py_div (2 * lg) (real_of_int (cs ! arm) + 1 / 10 ^ 7)) (\<lambda>d.
           bind_result (py_sqrt d) (\<lambda>sq. Return (q + sq))))))"

definition tuned_bonus :: "int list \<Rightarrow> real list \<Rightarrow> nat \<Rightarrow> real result" where
  "tuned_bonus cs mins arm =
     bind_result (py_log (real_of_int (sum_list cs + 1))) (\<lambda>lg.
     bind_result (py_div lg (real_of_int (cs ! arm) + 1 / 10 ^ 7)) (\<lambda>d.
     py_sqrt (d * mins ! arm)))"

definition tuned_update_ucbs :: "int list \<Rightarrow> real list \<Rightarrow> real list \<Rightarrow> real list result" where
  "tuned_update_ucbs cs ms m2 =
     bind_result (map_result (tuned_V cs m2) [0 ..< length cs]) (\<lambda>Vs.
     let mins = map (\<lambda>v. min (1 / 4) v) Vs
     in bind_result (map_result (tuned_bonus cs mins) [0 ..< length cs]) (\<lambda>bonuses.
        Return (map (\<lambda>(e, b). e + b) (zip ms bonuses))))"

fun update :: "strategy \<Rightarrow> int \<Rightarrow> real \<Rightarrow> unit result \<times> strategy" where
  "update (Random cs ms) chosen_arm reward =
     (case update_mean cs ms chosen_arm reward of
        (Raise e, cs', ms') \<Rightarrow> (Raise e, Random cs' ms')
      | (Return v, cs', ms') \<Rightarrow> (Return (), Random cs' ms'))"
| "update (EpsilonGreedy eps cs ms) chosen_arm reward =
     (case update_mean cs ms chosen_arm reward of
        (Raise e, cs', ms') \<Rightarrow> (Raise e, EpsilonGreedy eps cs' ms')
      | (Return v, cs', ms') \<Rightarrow> (Return (), EpsilonGreedy eps cs' ms'))"
| "update (AnnealingEpsilonGreedy cs ms) chosen_arm reward =
     (case update_mean cs ms chosen_arm reward of
        (Raise e, cs', ms') \<Rightarrow> (Raise e, AnnealingEpsilonGreedy cs' ms')
      | (Return v, cs', ms') \<Rightarrow> (Return (), AnnealingEpsilonGreedy cs' ms'))"
| "update (Boltzmann t cs ms) chosen_arm reward =
     (case update_mean cs ms chosen_arm reward of
        (Raise e, cs', ms') \<Rightarrow> (Raise e, Boltzmann t cs' ms')
      | (Return v, cs', ms') \<Rightarrow> (Return (), Boltzmann t cs' ms'))"
| "update (AnnealingBoltzmann cs ms) chosen_arm reward =
     (case update_mean cs ms chosen_arm reward of
        (Raise e, cs', ms') \<Rightarrow> (Raise e, AnnealingBoltzmann cs' ms')
      | (Return v, cs', ms') \<Rightarrow> (Return (), AnnealingBoltzmann cs' ms'))"
| "update (Pursuit l cs ms ps) chosen_arm reward =
     (case update_mean cs ms chosen_arm reward of
        (Raise e, cs', ms') \<Rightarrow> (Raise e, Pursuit l cs' ms' ps)
      | (Return v, cs', ms') \<Rightarrow>
          if sum_list ms' = 0 then (Return (), Pursuit l cs' ms' ps)
          else (case pursuit_loop l ms' [0 ..< length cs'] ps of
                  (res, ps') \<Rightarrow> (res, Pursuit l cs' ms' ps')))"
| "update (ReinforcementComparison al be cs ms prefs ers ps) chosen_arm reward =
     (case update_mean cs ms chosen_arm reward of
        (Raise e, cs', ms') \<Rightarrow> (Raise e, ReinforcementComparison al be cs' ms' prefs ers ps)
      | (Return v, cs', ms') \<Rightarrow>
          (case py_index prefs chosen_arm of
             Raise e \<Rightarrow> (Raise e, ReinforcementComparison al be cs' ms' prefs ers ps)
           | Return i \<Rightarrow>
               (case py_index ers chosen_arm of
                  Raise e \<Rightarrow> (Raise e, ReinforcementComparison al be cs' ms' prefs ers ps)
                | Return j \<Rightarrow>
                    let prefs' = prefs[i := prefs ! i + be * (reward - ers ! j)];
                        ers' = ers[j := (1 - al) * ers ! j + al * reward];
                        exp_preference = map exp prefs';
                        s = sum_list exp_preference
                    in (Return (),
                        ReinforcementComparison al be cs' ms' prefs' ers'
                          (map (\<lambda>e. e / s) exp_preference)))))"
| "update (UCB1 cs ms us) chosen_arm reward =
     (case update_mean cs ms chosen_arm reward of
        (Raise e, cs', ms') \<Rightarrow> (Raise e, UCB1 cs' ms' us)
      | (Return v, cs', ms') \<Rightarrow>
          (case ucb1_update_ucbs cs' ms' of
             Raise e \<Rightarrow> (Raise e, UCB1 cs' ms' us)
           | Return us' \<Rightarrow> (Return (), UCB1 cs' ms' us')))"
| "update (UCB1Tuned cs ms m2 us) chosen_arm reward =
     (case update_mean cs ms chosen_arm reward of
        (Raise e, cs', ms') \<Rightarrow> (Raise e, UCB1Tuned cs' ms' m2 us)
      | (Return (old_mean, new_mean), cs', ms') \<Rightarrow>
          (case py_index m2 chosen_arm of
             Raise e \<Rightarrow> (Raise e, UCB1Tuned cs' ms' m2 us)
           | Return i \<Rightarrow>
               let m2' = m2[i := m2 ! i + (reward - old_mean) * (reward - new_mean)]
               in (case tuned_update_ucbs cs' ms' m2' of
                     Raise e \<Rightarrow> (Raise e, UCB1Tuned cs' ms' m2' us)
                   | Return us' \<Rightarrow> (Return (), UCB1Tuned cs' ms' m2' us'))))"

subsection \<open>select_next_arm\<close>

text \<open>A call of \<open>select_next_arm\<close> returns an arm index, or \<open>None\<close> where the body of
  \<open>UCB1.select_next_arm\<close> ends without a \<open>return\<close>: the value is an \<open>int option\<close>.\<close>

definition returns_arm :: "int result \<Rightarrow> int option result" where
  "returns_arm r = bind_result r (\<lambda>k. Return (Some k))"

text \<open>The value of a numpy \<open>int64\<close> computation whose exact result is \<open>x\<close>: the result
  wraps around into the range from \<open>-2^63\<close> to \<open>2^63 - 1\<close>.\<close>

definition int64_wrap :: "int \<Rightarrow> int" where
  "int64_wrap x = (x + 2 ^ 63) mod 2 ^ 64 - 2 ^ 63"

text \<open>The annealed parameter of AnnealingEpsilonGreedy (\<open>epsilon\<close>) and of
  AnnealingBoltzmann (\<open>tau\<close>): \<open>t = np.sum(self.counts) + 1\<close>, then
  \<open>1/math.log(t + 1e-7)\<close>. For a list of Python integers in the 64-bit range \<open>np.sum\<close>
  adds in \<open>int64\<close>, and so does the \<open>+ 1\<close> on its result; \<open>t + 1e-7\<close> is a float. (The sum
  of the empty list is the float 0, which gives the same \<open>t\<close>.) The entries of \<open>counts\<close>
  are taken to be in the 64-bit range.\<close>

definition annealed :: "int list \<Rightarrow> real result" where
  "annealed cs =
     (let t = int64_wrap (int64_wrap (sum_list cs) + 1)
      in bind_result (py_log (real_of_int t + 1 / 10 ^ 7)) (\<lambda>lg. py_div 1 lg))"

text \<open>The two list comprehensions of \<open>Boltzmann.select_next_arm\<close>.\<close>

definition softmax_probs :: "real \<Rightarrow> real list \<Rightarrow> real list result" where
  "softmax_probs t ms =
     bind_result (map_result (\<lambda>v. bind_result (py_div v t) (\<lambda>q. Return (exp q))) ms) (\<lambda>es.
     let z = sum_list es
     in map_result (\<lambda>v. bind_result (py_div v t) (\<lambda>q. py_div (exp q) z)) ms)"

text \<open>The body shared by \<open>UCB1.select_next_arm\<close> and \<open>UCB1Tuned.select_next_arm\<close>.\<close>

definition ucb_select :: "int list \<Rightarrow> real list \<Rightarrow> int option result" where
  "ucb_select cs us =
     (if sum_list cs < int (length cs)
      then (case find (\<lambda>arm. cs ! arm = 0) [0 ..< length cs] of
              Some arm \<Rightarrow> Return (Some (int arm))
            | None \<Rightarrow> Return None)
      else returns_arm (np_argmax us))"

fun select_next_arm :: "draws \<Rightarrow> strategy \<Rightarrow> int option result \<times> strategy" where
  "select_next_arm d (Random cs ms) =
     (returns_arm (rand_randrange d (int (length ms))), Random cs ms)"
| "select_next_arm d (EpsilonGreedy eps cs ms) =
     (if eps < rand_random d then returns_arm (np_argmax ms)
      else returns_arm (rand_randrange d (int (length ms))),
      EpsilonGreedy eps cs ms)"
| "select_next_arm d (AnnealingEpsilonGreedy cs ms) =
     (bind_result (annealed cs) (\<lambda>eps.
        if eps < rand_random d then returns_arm (np_argmax ms)
        else returns_arm (rand_randrange d (int (length ms)))),
      AnnealingEpsilonGreedy cs ms)"
| "select_next_arm d (Boltzmann t cs ms) =
     (bind_result (softmax_probs t ms) (\<lambda>ps.
        returns_arm (rand_choices d (map int [0 ..< length ms]) ps)),
      Boltzmann t cs ms)"
| "select_next_arm d (AnnealingBoltzmann cs ms) =
     (bind_result (annealed cs) (\<lambda>t.
      bind_result (softmax_probs t ms) (\<lambda>ps.
        returns_arm (rand_choices d (map int [0 ..< length ms]) ps))),
      AnnealingBoltzmann cs ms)"
| "select_next_arm d (Pursuit l cs ms ps) =
     (returns_arm (rand_choices d (map int [0 ..< length ms]) ps), Pursuit l cs ms ps)"
| "select_next_arm d (ReinforcementComparison al be cs ms prefs ers ps) =
     (returns_arm (rand_choices d (map int [0 ..< length ms]) ps),
      ReinforcementComparison al be cs ms prefs ers ps)"
| "select_next_arm d (UCB1 cs ms us) = (ucb_select cs us, UCB1 cs ms us)"
| "select_next_arm d (UCB1Tuned cs ms m2 us) = (ucb_select cs us, UCB1Tuned cs ms m2 us)"

subsection \<open>Sequences of calls\<close>

text \<open>A sequence of \<open>update\<close> calls on one object, ended by the first exception.\<close>

fun run_updates :: "strategy \<Rightarrow> (int \<times> real) list \<Rightarrow> unit result \<times> strategy" where
  "run_updates s [] = (Return (), s)"
| "run_updates s ((chosen_arm, reward) # us) =
     (case update s chosen_arm reward of
        (Raise e, s') \<Rightarrow> (Raise e, s')
      | (Return u, s') \<Rightarrow> run_updates s' us)"

text \<open>The position an accepted index stands for in a list of \<open>n\<close> entries, and the rewards
  a sequence of calls passes to the arm at position \<open>a\<close>.\<close>

definition arm_of :: "nat \<Rightarrow> int \<Rightarrow> int" where
  "arm_of n i = (if i < 0 then i + int n else i)"

definition rewards_of :: "nat \<Rightarrow> nat \<Rightarrow> (int \<times> real) list \<Rightarrow> real list" where
  "rewards_of n a us = map snd (filter (\<lambda>(i, r). arm_of n i = int a) us)"

definition arithmetic_mean :: "real list \<Rightarrow> real" where
  "arithmetic_mean rs = sum_list rs / real (length rs)"

text \<open>An index \<open>update\<close> accepts on lists of \<open>n\<close> entries.\<close>

definition accepted_index :: "nat \<Rightarrow> int \<Rightarrow> bool" where
  "accepted_index n i = (- int n \<le> i \<and> i < int n)"

text \<open>The driver's loop for a list of rewards: select an arm, update it with the next
  reward; the arms selected, in order. It stops at the first call that raises or selects
  no arm.\<close>

fun select_update_run :: "draws \<Rightarrow> strategy \<Rightarrow> real list \<Rightarrow> int list" where
  "select_update_run d s [] = []"
| "select_update_run d s (reward # rs) =
     (case select_next_arm d s of
        (Return (Some a), s1) \<Rightarrow>
          (case update s1 a reward of
             (Return u, s2) \<Rightarrow> a # select_update_run d s2 rs
           | (Raise e, s2) \<Rightarrow> [a])
      | (Return None, s1) \<Rightarrow> []
      | (Raise e, s1) \<Rightarrow> [])"

text \<open>A fixed random source for concrete runs: \<open>random()\<close> gives one half, \<open>randrange\<close> and
  \<open>choices\<close> the first arm.\<close>

definition first_arm_draws :: draws where
  "first_arm_draws =
     \<lparr>rand_random = 1 / 2,
      rand_randrange = (\<lambda>n. if n \<le> 0 then Raise ValueError else Return 0),
      rand_choices = (\<lambda>population weights.
         case population of [] \<Rightarrow> Raise IndexError | a # rest \<Rightarrow> Return a)\<rparr>"

subsection \<open>Invariants\<close>

text \<open>The mean that the shared lines of \<open>update\<close> store for an arm whose count was \<open>c\<close> and
  whose mean was \<open>m\<close>, when the reward is \<open>r\<close>.\<close>

definition new_mean :: "int \<Rightarrow> real \<Rightarrow> real \<Rightarrow> real" where
  "new_mean c m r = (real_of_int c / real_of_int (c + 1)) * m + (1 / real_of_int (c + 1)) * r"

text \<open>The state \<open>reset\<close> makes and \<open>update\<close> keeps: every list has \<open>n\<close> entries, no count
  is negative, and no entry of \<open>M2\<close> is negative.\<close>

definition well_formed :: "nat \<Rightarrow> strategy \<Rightarrow> bool" where
  "well_formed n s =
     (length (counts s) = n \<and> length (emp_means s) = n \<and> list_all (\<lambda>c. 0 \<le> c) (counts s)
      \<and> (case s of
            Pursuit l cs ms ps \<Rightarrow> length ps = n
          | ReinforcementComparison al be cs ms prefs ers ps \<Rightarrow>
              length prefs = n \<and> length ers = n
          | UCB1 cs ms us \<Rightarrow> length us = n
          | UCB1Tuned cs ms m2 us \<Rightarrow>
              length m2 = n \<and> list_all (\<lambda>m. 0 \<le> m) m2 \<and> length us = n
          | _ \<Rightarrow> True))"

text \<open>What one pass of the loop of \<open>Pursuit.update\<close> does to the probability of arm \<open>i\<close>.\<close>

definition nudge :: "real \<Rightarrow> real list \<Rightarrow> nat \<Rightarrow> real \<Rightarrow> real" where
  "nudge l ms i p = (if np_argmax ms = Return (int i) then p + l * (1 - p) else p + l * (0 - p))"

text \<open>The counts and means are those of the rewards passed so far.\<close>

definition tracks :: "nat \<Rightarrow> (int \<times> real) list \<Rightarrow> strategy \<Rightarrow> bool" where
  "tracks n hist s =
     (\<forall>a<n. counts s ! a = int (length (rewards_of n a hist))
          \<and> emp_means s ! a = (if rewards_of n a hist = [] then 0
                                else arithmetic_mean (rewards_of n a hist)))"

text \<open>The object is a Pursuit or a ReinforcementComparison whose \<open>probs\<close> add up to 1.\<close>

fun sums_to_one :: "strategy \<Rightarrow> bool" where
  "sums_to_one (Pursuit l cs ms ps) = (sum_list ps = 1)"
| "sums_to_one (ReinforcementComparison al be cs ms prefs ers ps) = (sum_list ps = 1)"
| "sums_to_one s = False"

text \<open>The variance bound of an arm as the specification writes it:
  \<open>V[a] = M2[a]/(count[a]+1e-7) + sqrt(2*ln(T+1)/(count[a]+1e-7))\<close>, with \<open>T\<close> the sum of
  all counts.\<close>

definition spec_V :: "int list \<Rightarrow> real list \<Rightarrow> nat \<Rightarrow> real" where
  "spec_V cs m2 a =
     m2 ! a / (real_of_int (cs ! a) + 1 / 10 ^ 7)
       + sqrt (2 * ln (real_of_int (sum_list cs) + 1) / (real_of_int (cs ! a) + 1 / 10 ^ 7))"

text \<open>The bonus as the specification writes it:
  \<open>sqrt(ln(T+1)/(count[a]+1e-7) * min(1/4, V[a]))\<close>.\<close>

definition spec_bonus :: "int list \<Rightarrow> real list \<Rightarrow> nat \<Rightarrow> real" where
  "spec_bonus cs m2 a =
     sqrt (ln (real_of_int (sum_list cs) + 1) / (real_of_int (cs ! a) + 1 / 10 ^ 7)
             * min (1 / 4) (spec_V cs m2 a))"

text \<open>The object is a UCB1 or a UCB1Tuned.\<close>

fun is_ucb :: "strategy \<Rightarrow> bool" where
  "is_ucb (UCB1 cs ms us) = True"
| "is_ucb (UCB1Tuned cs ms m2 us) = True"
| "is_ucb s = False"

section \<open>Properties\<close>

subsection \<open>List indexing and the shared mean update\<close>

lemma py_index_out_of_range:
  "int (length xs) \<le> i \<or> i < - int (length xs) \<Longrightarrow> py_index xs i = Raise IndexError"
  by (auto simp: py_index_def Let_def)

lemma py_index_accepted:
  "accepted_index (length xs) i \<Longrightarrow> py_index xs i = Return (nat (arm_of (length xs) i))"
  by (auto simp: py_index_def accepted_index_def arm_of_def Let_def)

lemma py_index_position:
  "py_index xs i = Return k \<Longrightarrow> k = nat (arm_of (length xs) i) \<and> k < length xs"
  by (auto simp: py_index_def arm_of_def Let_def split: if_splits)

lemma update_mean_out_of_range:
  "py_index cs i = Raise e \<Longrightarrow> update_mean cs ms i r = (Raise e, cs, ms)"
  by (simp add: update_mean_def)

lemma update_mean_lengths:
  "length (fst (snd (update_mean cs ms i r))) = length cs"
  "length (snd (snd (update_mean cs ms i r))) = length ms"
  by (simp_all add: update_mean_def Let_def split: result.splits)

lemma update_mean_frame:
  assumes "b \<noteq> nat (arm_of (length cs) i)" "b \<noteq> nat (arm_of (length ms) i)"
  shows "fst (snd (update_mean cs ms i r)) ! b = cs ! b"
    and "snd (snd (update_mean cs ms i r)) ! b = ms ! b"
  using assms
  by (auto simp: update_mean_def Let_def split: result.splits dest!: py_index_position)

text \<open>Every class starts \<open>update\<close> with the shared lines and changes \<open>counts\<close> and
  \<open>emp_means\<close> nowhere else.\<close>

lemma update_counts:
  "counts (snd (update s i r)) = fst (snd (update_mean (counts s) (emp_means s) i r))"
  by (cases s) (simp_all add: Let_def split: prod.splits result.splits)

lemma update_emp_means:
  "emp_means (snd (update s i r)) = snd (snd (update_mean (counts s) (emp_means s) i r))"
  by (cases s) (simp_all add: Let_def split: prod.splits result.splits)

lemma update_raises_with_mean:
  "update_mean (counts s) (emp_means s) i r = (Raise e, counts s, emp_means s)
   \<Longrightarrow> update s i r = (Raise e, s)"
  by (cases s) simp_all

subsection \<open>Indices outside the lists\<close>

text \<open>
  C3 (as amended). For every class, \<open>update\<close> with a \<open>chosen_arm\<close> that is at least
  \<open>len(counts)\<close> or below \<open>-len(counts)\<close> raises IndexError and leaves the object as it
  was: no list grows and no arm is touched. This covers every call on an object whose
  lists are still empty. (An index from \<open>-len(counts)\<close> to \<open>-1\<close> is accepted by Python's
  list indexing and counts from the end; see the counterexample below.)
\<close>

theorem update_out_of_range_raises:
  "int (length (counts s)) \<le> chosen_arm \<or> chosen_arm < - int (length (counts s))
   \<Longrightarrow> update s chosen_arm reward = (Raise IndexError, s)"
  by (rule update_raises_with_mean, rule update_mean_out_of_range, rule py_index_out_of_range)

theorem update_out_of_range_raises_witness:
  "update (UCB1Tuned [0, 0, 0] [0, 0, 0] [0, 0, 0] [0, 0, 0]) 3 1
     = (Raise IndexError, UCB1Tuned [0, 0, 0] [0, 0, 0] [0, 0, 0] [0, 0, 0])
   \<and> update (EpsilonGreedy 0 [] []) 0 1 = (Raise IndexError, EpsilonGreedy 0 [] [])
   \<and> update (Pursuit (1 / 2) [0, 0] [0, 0] [1 / 2, 1 / 2]) (- 3) 1
     = (Raise IndexError, Pursuit (1 / 2) [0, 0] [0, 0] [1 / 2, 1 / 2])"
  using update_out_of_range_raises [of "UCB1Tuned [0, 0, 0] [0, 0, 0] [0, 0, 0] [0, 0, 0]" 3 1]
    update_out_of_range_raises [of "EpsilonGreedy 0 [] []" 0 1]
    update_out_of_range_raises [of "Pursuit (1 / 2) [0, 0] [0, 0] [1 / 2, 1 / 2]" "- 3" 1]
  by simp

text \<open>
  C3 as stated fails for a negative index: on three arms, \<open>update(-1, 1.0)\<close> raises
  nothing and records the reward on arm 2.
\<close>

theorem update_negative_index_counterexample:
  "update (reset (Random [] []) 3) (- 1) 1 = (Return (), Random [0, 0, 1] [0, 0, 1])"
  by (simp add: update_mean_def py_index_def numeral_3_eq_3)

subsection \<open>What a call leaves unchanged\<close>

text \<open>
  C8. For every class, \<open>select_next_arm\<close> leaves the object as it was: every attribute is
  the same after the call as before, whatever the random source gives and whether the
  call returns or raises.
\<close>

theorem select_next_arm_pure:
  "snd (select_next_arm d s) = s"
  by (cases s) simp_all

theorem select_next_arm_pure_witness:
  "snd (select_next_arm first_arm_draws (Boltzmann 1 [2, 0] [3, 0])) = Boltzmann 1 [2, 0] [3, 0]
   \<and> snd (select_next_arm first_arm_draws (UCB1 [1, 1] [0, 0] [])) = UCB1 [1, 1] [0, 0] []"
  using select_next_arm_pure [of first_arm_draws "Boltzmann 1 [2, 0] [3, 0]"]
    select_next_arm_pure [of first_arm_draws "UCB1 [1, 1] [0, 0] []"]
  by simp

text \<open>
  C9. For every class, \<open>update\<close> with a valid \<open>chosen_arm\<close> (from 0 to \<open>len(counts) - 1\<close>)
  leaves the pull count and the empirical mean of every other arm as they were, and
  the two lists keep their lengths. This holds whether the call returns or raises.
\<close>

theorem update_frame:
  assumes "0 \<le> chosen_arm" and "chosen_arm < int (length (counts s))"
    and "b \<noteq> nat chosen_arm"
  shows "counts (snd (update s chosen_arm reward)) ! b = counts s ! b
       \<and> emp_means (snd (update s chosen_arm reward)) ! b = emp_means s ! b
       \<and> length (counts (snd (update s chosen_arm reward))) = length (counts s)
       \<and> length (emp_means (snd (update s chosen_arm reward))) = length (emp_means s)"
proof -
  have "arm_of n chosen_arm = chosen_arm" for n
    using assms(1) by (simp add: arm_of_def)
  then show ?thesis
    using assms(3) by (simp add: update_counts update_emp_means update_mean_frame update_mean_lengths)
qed

theorem update_frame_witness:
  "counts (snd (update (Pursuit (1 / 2) [0, 4] [0, 3] [1 / 2, 1 / 2]) 0 1)) ! 1 = 4
   \<and> emp_means (snd (update (Pursuit (1 / 2) [0, 4] [0, 3] [1 / 2, 1 / 2]) 0 1)) ! 1 = 3"
  using update_frame [of 0 "Pursuit (1 / 2) [0, 4] [0, 3] [1 / 2, 1 / 2]" 1 1]
  by simp

subsection \<open>Results of the primitives\<close>

lemma bind_result_Return [simp]: "bind_result (Return x) f = f x"
  by (simp add: bind_result_def)

lemma bind_result_Raise [simp]: "bind_result (Raise e) f = Raise e"
  by (simp add: bind_result_def)

lemma bind_result_eq_Return:
  "bind_result m f = Return y \<longleftrightarrow> (\<exists>x. m = Return x \<and> f x = Return y)"
  by (cases m) simp_all

lemma map_result_Return:
  "map_result f xs = Return ys \<Longrightarrow>
     length ys = length xs \<and> (\<forall>i<length xs. f (xs ! i) = Return (ys ! i))"
proof (induction xs arbitrary: ys)
  case Nil
  then show ?case by simp
next
  case (Cons x xs)
  from Cons.prems obtain y zs where y: "f x = Return y" and zs: "map_result f xs = Return zs"
    and ys: "ys = y # zs"
    by (auto simp: bind_result_eq_Return)
  from Cons.IH [OF zs] y ys show ?case
    by (auto simp: nth_Cons split: nat.splits)
qed

lemma map_result_total:
  "(\<And>x. x \<in> set xs \<Longrightarrow> f x = Return (g x)) \<Longrightarrow> map_result f xs = Return (map g xs)"
  by (induction xs) simp_all

lemma update_mean_accepted:
  assumes "length cs = n" "length ms = n" "accepted_index n i" "0 \<le> cs ! nat (arm_of n i)"
  shows "update_mean cs ms i r =
     (Return (ms ! nat (arm_of n i), new_mean (cs ! nat (arm_of n i)) (ms ! nat (arm_of n i)) r),
      cs[nat (arm_of n i) := cs ! nat (arm_of n i) + 1],
      ms[nat (arm_of n i) := new_mean (cs ! nat (arm_of n i)) (ms ! nat (arm_of n i)) r])"
proof -
  have k: "nat (arm_of n i) < n"
    using assms(3) by (auto simp: accepted_index_def arm_of_def)
  show ?thesis
    using assms k py_index_accepted [of cs i] py_index_accepted [of ms i]
    by (simp add: update_mean_def Let_def new_mean_def)
qed

lemma accepted_position: "accepted_index n i \<Longrightarrow> nat (arm_of n i) < n"
  by (auto simp: accepted_index_def arm_of_def)

lemma list_all_update:
  "list_all P xs \<Longrightarrow> P v \<Longrightarrow> list_all P (xs[k := v])"
  by (auto simp: list_all_iff dest!: set_update_subset_insert [THEN subsetD])

lemma sum_list_nonneg_int: "list_all (\<lambda>c. 0 \<le> c) cs \<Longrightarrow> 0 \<le> sum_list (cs :: int list)"
  by (induction cs) auto

lemma ucb1_bonus_total:
  assumes "list_all (\<lambda>c. 0 \<le> c) cs" "arm < length cs"
  shows "ucb1_bonus cs arm
    = Return (sqrt (2 * ln (real_of_int (sum_list cs) + 1) / (real_of_int (cs ! arm) + 1 / 10 ^ 7)))"
proof -
  have s: "0 \<le> sum_list cs" using assms(1) by (rule sum_list_nonneg_int)
  have c: "0 \<le> cs ! arm" using assms by (simp add: list_all_length)
  have l: "0 \<le> ln (real_of_int (sum_list cs) + 1)" using s by simp
  have d: "0 < real_of_int (cs ! arm) + 1 / 10 ^ 7" using c by (simp add: add_nonneg_pos)
  have "\<not> 2 * ln (real_of_int (sum_list cs) + 1) / (real_of_int (cs ! arm) + 1 / 10 ^ 7) < 0"
    using l d by (simp add: not_less)
  then show ?thesis
    using s d by (simp add: ucb1_bonus_def py_log_def py_div_def py_sqrt_def)
qed

lemma ucb1_update_ucbs_total:
  assumes "list_all (\<lambda>c. 0 \<le> c) cs"
  shows "\<exists>us. ucb1_update_ucbs cs ms = Return us \<and> length us = min (length ms) (length cs)"
proof -
  have "map_result (ucb1_bonus cs) [0 ..< length cs]
     = Return (map (\<lambda>arm. sqrt (2 * ln (real_of_int (sum_list cs) + 1) / (real_of_int (cs ! arm) + 1 / 10 ^ 7))) [0 ..< length cs])"
    using assms by (intro map_result_total ucb1_bonus_total) simp_all
  then show ?thesis by (simp add: ucb1_update_ucbs_def)
qed

lemma tuned_V_total:
  assumes "list_all (\<lambda>c. 0 \<le> c) cs" "arm < length cs" "length m2 = length cs"
  shows "tuned_V cs m2 arm
    = Return (m2 ! arm / (real_of_int (cs ! arm) + 1 / 10 ^ 7)
        + sqrt (2 * ln (real_of_int (sum_list cs) + 1) / (real_of_int (cs ! arm) + 1 / 10 ^ 7)))"
proof -
  have s: "0 \<le> sum_list cs" using assms(1) by (rule sum_list_nonneg_int)
  have c: "0 \<le> cs ! arm" using assms by (simp add: list_all_length)
  have l: "0 \<le> ln (real_of_int (sum_list cs) + 1)" using s by simp
  have d: "0 < real_of_int (cs ! arm) + 1 / 10 ^ 7" using c by (simp add: add_nonneg_pos)
  have "\<not> 2 * ln (real_of_int (sum_list cs) + 1) / (real_of_int (cs ! arm) + 1 / 10 ^ 7) < 0"
    using l d by (simp add: not_less)
  then show ?thesis
    using s d assms(2,3) by (simp add: tuned_V_def py_log_def py_div_def py_sqrt_def)
qed

lemma tuned_bonus_total:
  assumes "list_all (\<lambda>c. 0 \<le> c) cs" "arm < length cs" "0 \<le> mins ! arm"
  shows "tuned_bonus cs mins arm
    = Return (sqrt (ln (real_of_int (sum_list cs) + 1) / (real_of_int (cs ! arm) + 1 / 10 ^ 7)
               * mins ! arm))"
proof -
  have s: "0 \<le> sum_list cs" using assms(1) by (rule sum_list_nonneg_int)
  have c: "0 \<le> cs ! arm" using assms by (simp add: list_all_length)
  have l: "0 \<le> ln (real_of_int (sum_list cs) + 1)" using s by simp
  have d: "0 < real_of_int (cs ! arm) + 1 / 10 ^ 7" using c by (simp add: add_nonneg_pos)
  have "0 \<le> ln (real_of_int (sum_list cs) + 1) / (real_of_int (cs ! arm) + 1 / 10 ^ 7)"
    using l d by simp
  then have "0 \<le> ln (real_of_int (sum_list cs) + 1) / (real_of_int (cs ! arm) + 1 / 10 ^ 7)
               * mins ! arm"
    using assms(3) by (rule mult_nonneg_nonneg)
  then have "\<not> ln (real_of_int (sum_list cs) + 1) / (real_of_int (cs ! arm) + 1 / 10 ^ 7)
               * mins ! arm < 0"
    by (simp only: not_less)
  then show ?thesis
    using s d by (simp add: tuned_bonus_def py_log_def py_div_def py_sqrt_def)
qed

lemma tuned_update_ucbs_total:
  assumes "list_all (\<lambda>c. 0 \<le> c) cs" "length m2 = length cs" "list_all (\<lambda>m. 0 \<le> m) m2"
  shows "\<exists>us. tuned_update_ucbs cs ms m2 = Return us \<and> length us = min (length ms) (length cs)"
proof -
  let ?V = "\<lambda>arm. m2 ! arm / (real_of_int (cs ! arm) + 1 / 10 ^ 7)
        + sqrt (2 * ln (real_of_int (sum_list cs) + 1) / (real_of_int (cs ! arm) + 1 / 10 ^ 7))"
  let ?mins = "map (\<lambda>v. min (1 / 4) v) (map ?V [0 ..< length cs])"
  have V: "map_result (tuned_V cs m2) [0 ..< length cs] = Return (map ?V [0 ..< length cs])"
    using assms by (intro map_result_total tuned_V_total) simp_all
  have nonneg: "0 \<le> ?mins ! arm" if "arm < length cs" for arm
  proof -
    have c: "0 \<le> cs ! arm" and m: "0 \<le> m2 ! arm"
      using assms that by (simp_all add: list_all_length)
    have s: "0 \<le> sum_list cs" using assms(1) by (rule sum_list_nonneg_int)
    have d: "0 < real_of_int (cs ! arm) + 1 / 10 ^ 7" using c by (simp add: add_nonneg_pos)
    have l: "0 \<le> ln (real_of_int (sum_list cs) + 1)" using s by simp
    have "0 \<le> m2 ! arm / (real_of_int (cs ! arm) + 1 / 10 ^ 7)"
      using m d by (intro divide_nonneg_pos)
    moreover have "0 \<le> sqrt (2 * ln (real_of_int (sum_list cs) + 1) / (real_of_int (cs ! arm) + 1 / 10 ^ 7))"
      using l d by (intro real_sqrt_ge_zero divide_nonneg_pos mult_nonneg_nonneg) simp_all
    ultimately have "0 \<le> ?V arm" by (rule add_nonneg_nonneg)
    then show ?thesis using that by simp
  qed
  have "map_result (tuned_bonus cs ?mins) [0 ..< length cs]
     = Return (map (\<lambda>arm. sqrt (ln (real_of_int (sum_list cs) + 1) / (real_of_int (cs ! arm) + 1 / 10 ^ 7)
               * ?mins ! arm)) [0 ..< length cs])"
    using assms(1) nonneg by (intro map_result_total tuned_bonus_total) simp_all
  with V show ?thesis by (simp add: tuned_update_ucbs_def Let_def)
qed

lemma np_argmax_nonempty: "ms \<noteq> [] \<Longrightarrow> \<exists>k. np_argmax ms = Return (int k)"
  by (cases ms) (simp_all add: np_argmax_def)

lemma pursuit_loop_total:
  assumes "ms \<noteq> []" "distinct is" "\<forall>i\<in>set is. i < length ps"
  shows "pursuit_loop l ms is ps =
    (Return (), map (\<lambda>i. if i \<in> set is then nudge l ms i (ps ! i) else ps ! i) [0 ..< length ps])"
  using assms(2,3)
proof (induction "is" arbitrary: ps)
  case Nil
  show ?case by (simp add: map_nth)
next
  case (Cons ii rest)
  obtain k where k: "np_argmax ms = Return (int k)"
    using np_argmax_nonempty [OF assms(1)] by blast
  let ?ps = "ps[ii := nudge l ms ii (ps ! ii)]"
  have step: "pursuit_loop l ms (ii # rest) ps = pursuit_loop l ms rest ?ps"
    using Cons.prems k by (simp add: nudge_def Let_def)
  have "pursuit_loop l ms rest ?ps =
    (Return (), map (\<lambda>i. if i \<in> set rest then nudge l ms i (?ps ! i) else ?ps ! i) [0 ..< length ?ps])"
    using Cons.prems by (intro Cons.IH) simp_all
  also have "map (\<lambda>i. if i \<in> set rest then nudge l ms i (?ps ! i) else ?ps ! i) [0 ..< length ?ps]
     = map (\<lambda>i. if i \<in> set (ii # rest) then nudge l ms i (ps ! i) else ps ! i) [0 ..< length ps]"
    using Cons.prems by (auto simp: nth_list_update)
  finally show ?case using step by simp
qed

lemma sum_list_delta:
  "k < n \<Longrightarrow> sum_list (map (\<lambda>i. if k = i then (1::real) else 0) [0 ..< n]) = 1"
  by (simp add: interv_sum_list_conv_sum_set_nat)

lemma pursuit_nudge_sum:
  assumes "np_argmax ms = Return (int k)" "k < length ps"
  shows "sum_list (map (\<lambda>i. nudge l ms i (ps ! i)) [0 ..< length ps])
     = sum_list ps + l * (1 - sum_list ps)"
proof -
  have "(\<lambda>i. nudge l ms i (ps ! i))
     = (\<lambda>i. (1 - l) * ps ! i + l * (if int k = int i then 1 else 0))"
    using assms(1) by (auto simp: nudge_def fun_eq_iff algebra_simps)
  then have "sum_list (map (\<lambda>i. nudge l ms i (ps ! i)) [0 ..< length ps])
     = (1 - l) * sum_list (map ((!) ps) [0 ..< length ps])
       + l * sum_list (map (\<lambda>i. if k = i then (1::real) else 0) [0 ..< length ps])"
    by (simp add: sum_list_addf sum_list_const_mult)
  also have "\<dots> = (1 - l) * sum_list ps + l * 1"
    using assms(2) by (simp only: map_nth sum_list_delta)
  finally show ?thesis by (simp add: algebra_simps)
qed

lemma argmax_from_bound:
  "best < i \<Longrightarrow> argmax_from best bv i xs < i + length xs"
proof (induction xs arbitrary: best bv i)
  case Nil
  then show ?case by simp
next
  case (Cons x xs)
  have "argmax_from i x (Suc i) xs < Suc i + length xs"
    by (rule Cons.IH) simp
  moreover have "argmax_from best bv (Suc i) xs < Suc i + length xs"
    using Cons.prems by (intro Cons.IH) simp
  ultimately show ?case by simp
qed

lemma np_argmax_bound:
  assumes "np_argmax xs = Return k"
  shows "0 \<le> k \<and> k < int (length xs)"
proof (cases xs)
  case Nil
  with assms show ?thesis by (simp add: np_argmax_def)
next
  case (Cons x rest)
  have "argmax_from 0 x 1 rest < 1 + length rest"
    by (rule argmax_from_bound) simp
  then have "int (argmax_from 0 x 1 rest) < int (1 + length rest)"
    by (simp only: of_nat_less_iff)
  with assms Cons show ?thesis by (simp add: np_argmax_def)
qed

lemma unit_fraction_split:
  fixes x :: real
  assumes "0 \<le> x"
  shows "x / (x + 1) + 1 / (x + 1) = 1"
proof -
  have nz: "x + 1 \<noteq> 0" using assms by simp
  have "x / (x + 1) + 1 / (x + 1) = (x + 1) / (x + 1)" by (simp only: add_divide_distrib)
  then show ?thesis using nz by simp
qed

lemma weighted_regroup:
  fixes q :: real
  shows "q * (r - m) + (q * m + p * r) = (q + p) * r"
  by (simp add: algebra_simps)

lemma welford_step:
  fixes x :: real
  assumes "0 \<le> x"
  shows "r - (x / (x + 1) * m + 1 / (x + 1) * r) = x / (x + 1) * (r - m)"
proof -
  have "x / (x + 1) * (r - m) + (x / (x + 1) * m + 1 / (x + 1) * r)
      = (x / (x + 1) + 1 / (x + 1)) * r"
    by (rule weighted_regroup)
  also have "\<dots> = r" by (simp only: unit_fraction_split [OF assms] mult_1)
  finally show ?thesis by linarith
qed

lemma welford_nonneg:
  assumes "0 \<le> c"
  shows "0 \<le> (r - m) * (r - new_mean c m r)"
proof -
  have x: "0 \<le> real_of_int c" using assms by simp
  have "r - new_mean c m r = real_of_int c / (real_of_int c + 1) * (r - m)"
    using welford_step [OF x] by (simp add: new_mean_def)
  then have "(r - m) * (r - new_mean c m r)
     = real_of_int c / (real_of_int c + 1) * ((r - m) * (r - m))"
    by (simp only: mult.left_commute [of "r - m"])
  moreover have "0 \<le> real_of_int c / (real_of_int c + 1)" using x by simp
  then have "0 \<le> real_of_int c / (real_of_int c + 1) * ((r - m) * (r - m))"
    by (intro mult_nonneg_nonneg zero_le_square)
  ultimately show ?thesis by (simp only:)
qed

lemma well_formed_nonneg:
  "well_formed n s \<Longrightarrow> k < n \<Longrightarrow> 0 \<le> counts s ! k"
  by (simp add: well_formed_def list_all_length)

lemma update_mean_well_formed:
  assumes "length cs = n" "length ms = n" "list_all (\<lambda>c. 0 \<le> c) cs" "accepted_index n i"
  shows "\<exists>old new cs' ms'. update_mean cs ms i r = (Return (old, new), cs', ms')
     \<and> length cs' = n \<and> length ms' = n \<and> list_all (\<lambda>c. 0 \<le> c) cs' \<and> 0 < n
     \<and> 0 \<le> (r - old) * (r - new)"
proof -
  let ?k = "nat (arm_of n i)"
  have k: "?k < n" using assms(4) by (rule accepted_position)
  then have c: "0 \<le> cs ! ?k" using assms(1,3) by (simp add: list_all_length)
  have "list_all (\<lambda>c. 0 \<le> c) (cs[?k := cs ! ?k + 1])"
    using assms(3) c by (intro list_all_update) simp_all
  moreover have "0 \<le> (r - ms ! ?k) * (r - new_mean (cs ! ?k) (ms ! ?k) r)"
    using c by (rule welford_nonneg)
  ultimately show ?thesis
    using update_mean_accepted [OF assms(1,2,4) c, of r] assms(1,2) k by simp
qed

lemma update_total:
  assumes "well_formed n s" "accepted_index n i"
  shows "\<exists>s'. update s i r = (Return (), s') \<and> well_formed n s'"
proof -
  have len: "length (counts s) = n" "length (emp_means s) = n"
    and nonneg: "list_all (\<lambda>c. 0 \<le> c) (counts s)"
    using assms(1) by (simp_all add: well_formed_def)
  obtain old new cs' ms' where
    um: "update_mean (counts s) (emp_means s) i r = (Return (old, new), cs', ms')"
    and len': "length cs' = n" "length ms' = n" and nonneg': "list_all (\<lambda>c. 0 \<le> c) cs'"
    and n: "0 < n" and w: "0 \<le> (r - old) * (r - new)"
    using update_mean_well_formed [OF len nonneg assms(2), of r] by blast
  show ?thesis
  proof (cases s)
    case (Pursuit l cs ms ps)
    have ps: "length ps = n" using assms(1) Pursuit by (simp add: well_formed_def)
    have "ms' \<noteq> []" using len' n by auto
    then have "pursuit_loop l ms' [0 ..< n] ps =
      (Return (), map (\<lambda>i. if i \<in> set [0 ..< n] then nudge l ms' i (ps ! i) else ps ! i) [0 ..< length ps])"
      using ps by (intro pursuit_loop_total) simp_all
    then show ?thesis
      using Pursuit um len' nonneg' ps by (simp add: well_formed_def)
  next
    case (ReinforcementComparison al be cs ms prefs ers ps)
    have "length prefs = n" "length ers = n"
      using assms(1) ReinforcementComparison by (simp_all add: well_formed_def)
    then show ?thesis
      using ReinforcementComparison um len' nonneg' assms(2)
        py_index_accepted [of prefs i] py_index_accepted [of ers i]
      by (simp add: well_formed_def Let_def)
  next
    case (UCB1 cs ms us)
    obtain us' where "ucb1_update_ucbs cs' ms' = Return us'"
      "length us' = min (length ms') (length cs')"
      using ucb1_update_ucbs_total [OF nonneg'] by blast
    then show ?thesis
      using UCB1 um len' nonneg' by (simp add: well_formed_def)
  next
    case (UCB1Tuned cs ms m2 us)
    have m2: "length m2 = n" "list_all (\<lambda>m. 0 \<le> m) m2"
      using assms(1) UCB1Tuned by (simp_all add: well_formed_def)
    let ?k = "nat (arm_of n i)"
    let ?m2 = "m2[?k := m2 ! ?k + (r - old) * (r - new)]"
    have k: "?k < n" using assms(2) by (rule accepted_position)
    then have "0 \<le> m2 ! ?k" using m2 by (simp add: list_all_length)
    then have nn: "list_all (\<lambda>m. 0 \<le> m) ?m2"
      using m2(2) w by (intro list_all_update) simp_all
    have "length ?m2 = length cs'" using m2(1) len' by simp
    then obtain us' where "tuned_update_ucbs cs' ms' ?m2 = Return us'"
      "length us' = min (length ms') (length cs')"
      using tuned_update_ucbs_total [OF nonneg' _ nn] by blast
    then show ?thesis
      using UCB1Tuned um len' nonneg' m2(1) nn assms(2) py_index_accepted [of m2 i]
      by (simp add: well_formed_def Let_def)
  qed (use um len' nonneg' in \<open>simp_all add: well_formed_def\<close>)
qed

lemma well_formed_reset: "well_formed (nat n_arms) (reset s n_arms)"
  by (cases s) (simp_all add: well_formed_def list_all_length)

lemma run_updates_total:
  assumes "well_formed n s" "list_all (\<lambda>(i, r). accepted_index n i) us"
  shows "\<exists>s'. run_updates s us = (Return (), s') \<and> well_formed n s'"
  using assms
proof (induction us arbitrary: s)
  case Nil
  then show ?case by simp
next
  case (Cons u us)
  obtain i r where u: "u = (i, r)" by (cases u)
  with Cons.prems obtain s1 where s1: "update s i r = (Return (), s1)" "well_formed n s1"
    using update_total [of n s i r] by auto
  with Cons.IH [of s1] Cons.prems(2) u show ?case by simp
qed

lemma rewards_of_append:
  "rewards_of n a (hist @ us) = rewards_of n a hist @ rewards_of n a us"
  by (simp add: rewards_of_def)

lemma rewards_of_single:
  "rewards_of n a [(i, r)] = (if arm_of n i = int a then [r] else [])"
  by (simp add: rewards_of_def)

lemma accepted_arm_of: "accepted_index n i \<Longrightarrow> int (nat (arm_of n i)) = arm_of n i"
  by (auto simp: accepted_index_def arm_of_def)

lemma mean_step:
  "new_mean (int (length rs)) (if rs = [] then 0 else arithmetic_mean rs) r
     = arithmetic_mean (rs @ [r])"
proof (cases "rs = []")
  case True
  then show ?thesis by (simp add: new_mean_def arithmetic_mean_def)
next
  case False
  then have pos: "0 < real (length rs)" by simp
  have "real (length rs) / (real (length rs) + 1) * (sum_list rs / real (length rs))
      = sum_list rs / (real (length rs) + 1)"
    using pos by simp
  then have "real (length rs) / (real (length rs) + 1) * (sum_list rs / real (length rs))
       + 1 / (real (length rs) + 1) * r
      = (sum_list rs + r) / (real (length rs) + 1)"
    by (simp add: add_divide_distrib)
  then show ?thesis
    using False by (simp add: new_mean_def arithmetic_mean_def add.commute)
qed

lemma tracks_update:
  assumes "well_formed n s" "tracks n hist s" "accepted_index n i"
  shows "tracks n (hist @ [(i, r)]) (snd (update s i r))"
proof -
  let ?k = "nat (arm_of n i)"
  have len: "length (counts s) = n" "length (emp_means s) = n"
    using assms(1) by (simp_all add: well_formed_def)
  have k: "?k < n" using assms(3) by (rule accepted_position)
  have c: "0 \<le> counts s ! ?k" using assms(1) k by (rule well_formed_nonneg)
  note um = update_mean_accepted [OF len assms(3) c, of r]
  have cs: "counts (snd (update s i r)) = (counts s)[?k := counts s ! ?k + 1]"
    and ms: "emp_means (snd (update s i r))
      = (emp_means s)[?k := new_mean (counts s ! ?k) (emp_means s ! ?k) r]"
    by (simp_all add: update_counts update_emp_means um)
  show ?thesis
    unfolding tracks_def
  proof (intro allI impI)
    fix a assume a: "a < n"
    from assms(2) a have
      ca: "counts s ! a = int (length (rewards_of n a hist))" and
      ma: "emp_means s ! a = (if rewards_of n a hist = [] then 0
                               else arithmetic_mean (rewards_of n a hist))"
      by (simp_all add: tracks_def)
    show "counts (snd (update s i r)) ! a = int (length (rewards_of n a (hist @ [(i, r)])))
       \<and> emp_means (snd (update s i r)) ! a =
          (if rewards_of n a (hist @ [(i, r)]) = [] then 0
           else arithmetic_mean (rewards_of n a (hist @ [(i, r)])))"
    proof (cases "a = ?k")
      case True
      then have hit: "arm_of n i = int a" using accepted_arm_of [OF assms(3)] by simp
      have rs: "rewards_of n a (hist @ [(i, r)]) = rewards_of n a hist @ [r]"
        using hit by (simp add: rewards_of_append rewards_of_single)
      have cs': "counts (snd (update s i r)) = (counts s)[a := counts s ! a + 1]"
        and ms': "emp_means (snd (update s i r))
          = (emp_means s)[a := new_mean (counts s ! a) (emp_means s ! a) r]"
        using cs ms True by simp_all
      have "new_mean (counts s ! a) (emp_means s ! a) r
          = arithmetic_mean (rewards_of n a hist @ [r])"
        unfolding ca ma by (rule mean_step)
      then show ?thesis
        using a len ca by (simp add: cs' ms' rs)
    next
      case False
      then have miss: "arm_of n i \<noteq> int a" using accepted_arm_of [OF assms(3)] by auto
      show ?thesis
        using False miss ca ma by (simp add: cs ms rewards_of_append rewards_of_single)
    qed
  qed
qed

lemma run_updates_tracks:
  assumes "well_formed n s" "tracks n hist s" "list_all (\<lambda>(i, r). accepted_index n i) us"
  shows "\<exists>s'. run_updates s us = (Return (), s') \<and> well_formed n s' \<and> tracks n (hist @ us) s'"
  using assms
proof (induction us arbitrary: s hist)
  case Nil
  then show ?case by simp
next
  case (Cons u us)
  obtain i r where u: "u = (i, r)" by (cases u)
  from Cons.prems u have acc: "accepted_index n i" by simp
  obtain s1 where s1: "update s i r = (Return (), s1)" "well_formed n s1"
    using update_total [OF Cons.prems(1) acc] by blast
  have "tracks n (hist @ [(i, r)]) s1"
    using tracks_update [OF Cons.prems(1,2) acc, of r] s1(1) by simp
  from Cons.IH [OF s1(2) this] Cons.prems(3) s1(1) u show ?case by simp
qed

lemma tracks_reset: "tracks (nat n_arms) [] (reset s n_arms)"
  by (cases s) (simp_all add: tracks_def rewards_of_def)

subsection \<open>The running mean\<close>

text \<open>
  C1. For every class, after \<open>reset(n_arms)\<close> and any sequence of \<open>update\<close> calls with
  accepted arm indices, every call returns, and for each arm \<open>a\<close> the count \<open>counts[a]\<close>
  is the number \<open>k\<close> of rewards the sequence passed to arm \<open>a\<close> (in any interleaving with
  the other arms) and \<open>emp_means[a]\<close> is their arithmetic mean, in exact arithmetic; with
  no reward yet the mean is the initial 0.
\<close>

theorem mean_invariant:
  assumes "list_all (\<lambda>(i, r). accepted_index (nat n_arms) i) us" and "a < nat n_arms"
  shows "\<exists>s'. run_updates (reset s n_arms) us = (Return (), s')
     \<and> counts s' ! a = int (length (rewards_of (nat n_arms) a us))
     \<and> emp_means s' ! a = (if rewards_of (nat n_arms) a us = [] then 0
                           else arithmetic_mean (rewards_of (nat n_arms) a us))"
  using run_updates_tracks [OF well_formed_reset tracks_reset assms(1), of s] assms(2)
  by (auto simp: tracks_def)

theorem mean_invariant_witness:
  "\<exists>s'. run_updates (reset (UCB1Tuned [] [] [] []) 2) [(0, 1), (1, 5), (- 2, 3)] = (Return (), s')
     \<and> counts s' ! 0 = 2 \<and> emp_means s' ! 0 = 2"
proof -
  have rs: "rewards_of (nat 2) 0 [(0, 1), (1, 5), (- 2, 3)] = [1, 3]"
    by (simp add: rewards_of_def arm_of_def)
  have acc: "list_all (\<lambda>(i, r). accepted_index (nat 2) i) [(0, 1), (1, 5), (- 2, 3 :: real)]"
    by (simp add: accepted_index_def)
  have a: "0 < nat 2" by simp
  show ?thesis
    using mean_invariant [OF acc a, of "UCB1Tuned [] [] [] []"]
    unfolding rs by (simp add: arithmetic_mean_def)
qed

subsection \<open>The probability vector\<close>

lemma sum_list_exp_pos:
  assumes "xs \<noteq> []"
  shows "0 < sum_list (map exp (xs :: real list))"
proof -
  obtain x rest where xs: "xs = x # rest" using assms by (cases xs) auto
  have "0 \<le> sum_list (map exp rest)" by (rule sum_list_nonneg) auto
  then have "0 < exp x + sum_list (map exp rest)" by (intro add_pos_nonneg) simp_all
  then show ?thesis using xs by simp
qed

lemma sum_list_divide: "sum_list (map (\<lambda>e. e / s) es) = sum_list es / (s :: real)"
  by (induction es) (simp_all add: add_divide_distrib)

lemma softmax_sum:
  assumes "xs \<noteq> []"
  shows "sum_list (map (\<lambda>e. e / sum_list (map exp xs)) (map exp (xs :: real list))) = 1"
  using sum_list_exp_pos [OF assms] by (simp only: sum_list_divide) simp

lemma sum_list_uniform:
  assumes "0 < n_arms"
  shows "sum_list (replicate (nat n_arms) (1 / real_of_int n_arms)) = 1"
  using assms by (simp add: sum_list_replicate)

lemma sums_to_one_probs: "sums_to_one s \<Longrightarrow> sum_list (probs s) = 1"
  by (cases s) simp_all

lemma sums_to_one_update:
  assumes "well_formed n s" "sums_to_one s" "accepted_index n i"
  shows "sums_to_one (snd (update s i r))"
proof -
  have len: "length (counts s) = n" "length (emp_means s) = n"
    and nonneg: "list_all (\<lambda>c. 0 \<le> c) (counts s)"
    using assms(1) by (simp_all add: well_formed_def)
  obtain old new cs' ms' where
    um: "update_mean (counts s) (emp_means s) i r = (Return (old, new), cs', ms')"
    and len': "length cs' = n" "length ms' = n" and n: "0 < n"
    using update_mean_well_formed [OF len nonneg assms(3), of r] by blast
  show ?thesis
  proof (cases s)
    case (Pursuit l cs ms ps)
    have ps: "length ps = n" "sum_list ps = 1"
      using assms(1,2) Pursuit by (simp_all add: well_formed_def)
    have ne: "ms' \<noteq> []" using len' n by auto
    then obtain k where k: "np_argmax ms' = Return (int k)"
      using np_argmax_nonempty by blast
    then have kn: "k < length ps" using np_argmax_bound [OF k] len' ps by simp
    have "pursuit_loop l ms' [0 ..< n] ps =
      (Return (), map (\<lambda>i. if i \<in> set [0 ..< n] then nudge l ms' i (ps ! i) else ps ! i) [0 ..< length ps])"
      using ps ne by (intro pursuit_loop_total) simp_all
    also have "map (\<lambda>i. if i \<in> set [0 ..< n] then nudge l ms' i (ps ! i) else ps ! i) [0 ..< length ps]
       = map (\<lambda>i. nudge l ms' i (ps ! i)) [0 ..< length ps]"
      using ps by simp
    finally have loop: "pursuit_loop l ms' [0 ..< n] ps
       = (Return (), map (\<lambda>i. nudge l ms' i (ps ! i)) [0 ..< length ps])" .
    have "sum_list (map (\<lambda>i. nudge l ms' i (ps ! i)) [0 ..< length ps]) = 1"
      using pursuit_nudge_sum [OF k kn, of l] ps by simp
    then show ?thesis
      using Pursuit um len' ps loop by simp
  next
    case (ReinforcementComparison al be cs ms prefs ers ps)
    have l: "length prefs = n" "length ers = n"
      using assms(1) ReinforcementComparison by (simp_all add: well_formed_def)
    let ?k = "nat (arm_of n i)"
    have "prefs[?k := prefs ! ?k + be * (r - ers ! ?k)] \<noteq> []"
      using l n by auto
    from softmax_sum [OF this] show ?thesis
      using ReinforcementComparison um assms(3) l
        py_index_accepted [of prefs i] py_index_accepted [of ers i]
      by (simp add: Let_def)
  qed (use assms(2) in simp_all)
qed

lemma run_updates_sums_to_one:
  assumes "well_formed n s" "sums_to_one s" "list_all (\<lambda>(i, r). accepted_index n i) us"
  shows "\<exists>s'. run_updates s us = (Return (), s') \<and> sums_to_one s'"
  using assms
proof (induction us arbitrary: s)
  case Nil
  then show ?case by simp
next
  case (Cons u us)
  obtain i r where u: "u = (i, r)" by (cases u)
  from Cons.prems u have acc: "accepted_index n i" by simp
  obtain s1 where s1: "update s i r = (Return (), s1)" "well_formed n s1"
    using update_total [OF Cons.prems(1) acc] by blast
  have "sums_to_one s1"
    using sums_to_one_update [OF Cons.prems(1,2) acc, of r] s1(1) by simp
  from Cons.IH [OF s1(2) this] Cons.prems(3) s1(1) u show ?case by simp
qed

lemma accepted_index_positive: "accepted_index (nat n_arms) i \<Longrightarrow> 0 < n_arms"
  by (auto simp: accepted_index_def split: if_splits)

text \<open>
  C5. For Pursuit and ReinforcementComparison, after \<open>reset(n_arms)\<close> and any non-empty
  sequence of \<open>update\<close> calls with accepted arm indices, every call returns and the
  entries of \<open>probs\<close> add up to exactly 1, in exact arithmetic. A sequence and each of its
  prefixes are covered, so the sum is 1 after every call.
\<close>

theorem probs_sum_to_one:
  assumes "s = Pursuit l cs ms ps \<or> s = ReinforcementComparison al be cs ms prefs ers ps"
    and "us \<noteq> []" and "list_all (\<lambda>(i, r). accepted_index (nat n_arms) i) us"
  shows "\<exists>s'. run_updates (reset s n_arms) us = (Return (), s') \<and> sum_list (probs s') = 1"
proof -
  obtain i r rest where "us = (i, r) # rest" using assms(2) by (cases us) auto
  then have "accepted_index (nat n_arms) i" using assms(3) by simp
  then have "0 < n_arms" by (rule accepted_index_positive)
  then have "sums_to_one (reset s n_arms)"
    using assms(1) sum_list_uniform by auto
  from run_updates_sums_to_one [OF well_formed_reset this assms(3)] show ?thesis
    by (auto dest: sums_to_one_probs)
qed

theorem probs_sum_to_one_witness:
  "(\<exists>s'. run_updates (reset (Pursuit (1 / 2) [] [] []) 2) [(0, 1), (1, 3)] = (Return (), s')
       \<and> sum_list (probs s') = 1)
   \<and> (\<exists>s'. run_updates (reset (ReinforcementComparison (1 / 10) (1 / 5) [] [] [] [] []) 3)
               [(2, 1), (- 3, 4)] = (Return (), s')
       \<and> sum_list (probs s') = 1)"
proof -
  have a: "list_all (\<lambda>(i, r). accepted_index (nat 2) i) [(0, 1), (1, 3 :: real)]"
    and b: "list_all (\<lambda>(i, r). accepted_index (nat 3) i) [(2, 1), (- 3, 4 :: real)]"
    by (simp_all add: accepted_index_def)
  show ?thesis
    using probs_sum_to_one [OF disjI1 [OF refl] _ a, of "1 / 2" "[]" "[]" "[]"]
      probs_sum_to_one [OF disjI2 [OF refl] _ b, of "1 / 10" "1 / 5" "[]" "[]" "[]" "[]" "[]"]
    by simp
qed

subsection \<open>The probability update of Pursuit\<close>

text \<open>What \<open>Pursuit.update\<close> does on a well-formed object: the probability update is
  skipped exactly when the means add up to 0 after the mean update; otherwise every
  probability is nudged, towards 1 for the argmax arm and towards 0 for the others.\<close>

lemma pursuit_update_guard:
  assumes "well_formed n (Pursuit l cs ms ps)" "accepted_index n i"
  shows "\<exists>cs' ms'. update (Pursuit l cs ms ps) i r
      = (Return (), Pursuit l cs' ms'
           (if sum_list ms' = 0 then ps else map (\<lambda>a. nudge l ms' a (ps ! a)) [0 ..< n]))"
proof -
  have len: "length cs = n" "length ms = n" "length ps = n"
    and nonneg: "list_all (\<lambda>c. 0 \<le> c) cs"
    using assms(1) by (simp_all add: well_formed_def)
  obtain old new cs' ms' where
    um: "update_mean cs ms i r = (Return (old, new), cs', ms')"
    and len': "length cs' = n" "length ms' = n" and n: "0 < n"
    using update_mean_well_formed [OF len(1,2) nonneg assms(2), of r] by blast
  have "ms' \<noteq> []" using len' n by auto
  then have "pursuit_loop l ms' [0 ..< n] ps =
      (Return (), map (\<lambda>i. if i \<in> set [0 ..< n] then nudge l ms' i (ps ! i) else ps ! i) [0 ..< length ps])"
    using len(3) by (intro pursuit_loop_total) simp_all
  then have "pursuit_loop l ms' [0 ..< n] ps
      = (Return (), map (\<lambda>a. nudge l ms' a (ps ! a)) [0 ..< n])"
    using len(3) by simp
  then show ?thesis using um len' by simp
qed

text \<open>
  C2 (the code at the failing input). On two arms with learning rate one half,
  \<open>update(0, 1.0)\<close> moves \<open>probs\<close> to \<open>[3/4, 1/4]\<close>. The next call \<open>update(1, -1.0)\<close>
  leaves the means at \<open>[1, -1]\<close>, both nonzero, and \<open>probs\<close> as it was: the test
  \<open>np.sum(self.emp_means) == 0\<close> skips the probability update although not all means
  are 0.
\<close>

theorem pursuit_skips_on_zero_sum:
  "run_updates (reset (Pursuit (1 / 2) [] [] []) 2) [(0, 1)]
     = (Return (), Pursuit (1 / 2) [1, 0] [1, 0] [3 / 4, 1 / 4])
   \<and> update (Pursuit (1 / 2) [1, 0] [1, 0] [3 / 4, 1 / 4]) 1 (- 1)
     = (Return (), Pursuit (1 / 2) [1, 1] [1, - 1] [3 / 4, 1 / 4])"
  by (simp add: update_mean_def py_index_def np_argmax_def numeral_2_eq_2 upt_rec Let_def)

subsection \<open>The annealed epsilon\<close>






subsection \<open>The bounds of UCB1Tuned\<close>

lemma tuned_V_Return:
  "tuned_V cs m2 a = Return v \<Longrightarrow> v = spec_V cs m2 a"
  by (auto simp: tuned_V_def spec_V_def py_log_def py_div_def py_sqrt_def bind_result_eq_Return
      split: if_splits)

lemma tuned_bonus_Return:
  "tuned_bonus cs mins a = Return b \<Longrightarrow>
     b = sqrt (ln (real_of_int (sum_list cs) + 1) / (real_of_int (cs ! a) + 1 / 10 ^ 7) * mins ! a)"
  by (auto simp: tuned_bonus_def py_log_def py_div_def py_sqrt_def bind_result_eq_Return
      split: if_splits)

lemma tuned_update_ucbs_Return:
  assumes "tuned_update_ucbs cs ms m2 = Return us"
  shows "length us = min (length ms) (length cs)"
    and "a < length us \<Longrightarrow> us ! a = ms ! a + spec_bonus cs m2 a"
proof -
  from assms obtain Vs bonuses where
    Vs: "map_result (tuned_V cs m2) [0 ..< length cs] = Return Vs" and
    bs: "map_result (tuned_bonus cs (map (\<lambda>v. min (1 / 4) v) Vs)) [0 ..< length cs] = Return bonuses"
    and us: "us = map (\<lambda>(e, b). e + b) (zip ms bonuses)"
    by (auto simp: tuned_update_ucbs_def Let_def bind_result_eq_Return)
  note V = map_result_Return [OF Vs] and B = map_result_Return [OF bs]
  show len: "length us = min (length ms) (length cs)" using us B by simp
  assume a: "a < length us"
  then have ac: "a < length cs" and am: "a < length ms" using len by simp_all
  have "Vs ! a = spec_V cs m2 a"
    using V ac by (intro tuned_V_Return) simp
  moreover have "bonuses ! a
     = sqrt (ln (real_of_int (sum_list cs) + 1) / (real_of_int (cs ! a) + 1 / 10 ^ 7)
              * map (\<lambda>v. min (1 / 4) v) Vs ! a)"
    using B ac by (intro tuned_bonus_Return) simp
  ultimately have "bonuses ! a = spec_bonus cs m2 a"
    using V ac by (simp add: spec_bonus_def)
  then show "us ! a = ms ! a + spec_bonus cs m2 a"
    using us ac am B by simp
qed

text \<open>
  C6. After every \<open>UCB1Tuned.update\<close> that returns, \<open>ucbs\<close> has an entry for each arm
  that has a mean and a count, and each stored \<open>ucbs[a]\<close> is \<open>emp_means[a]\<close> plus the
  bonus \<open>sqrt(ln(T+1)/(count[a]+1e-7) * min(1/4, V[a]))\<close>, with \<open>V[a]\<close> and \<open>T\<close> as the
  specification defines them on the counts and \<open>M2\<close> after the call; the variance term
  \<open>min(1/4, V[a])\<close> that feeds the bonus is at most 1/4.
\<close>

theorem tuned_ucbs_formula:
  assumes "update (UCB1Tuned cs ms m2 us) chosen_arm reward = (Return (), s')"
  shows "length (ucbs s') = min (length (emp_means s')) (length (counts s'))
     \<and> (\<forall>a < length (ucbs s').
           ucbs s' ! a = emp_means s' ! a + spec_bonus (counts s') (M2 s') a
         \<and> min (1 / 4) (spec_V (counts s') (M2 s') a) \<le> 1 / 4)"
proof -
  from assms obtain cs' ms' m2' us' where
    s': "s' = UCB1Tuned cs' ms' m2' us'" and
    up: "tuned_update_ucbs cs' ms' m2' = Return us'"
    by (auto simp: Let_def split: prod.splits result.splits)
  have cap: "min (1 / 4) (spec_V cs' m2' a) \<le> 1 / 4" for a
    by (rule min.cobounded1)
  show ?thesis
    using tuned_update_ucbs_Return [OF up] cap by (simp add: s' del: min_less_iff_disj min_le_iff_disj)
qed

theorem tuned_ucbs_formula_witness:
  "\<exists>s'. update (UCB1Tuned [0, 0] [0, 0] [0, 0] [0, 0]) 0 1 = (Return (), s')
     \<and> length (ucbs s') = 2
     \<and> ucbs s' ! 0 = emp_means s' ! 0 + spec_bonus (counts s') (M2 s') 0
     \<and> ucbs s' ! 1 = emp_means s' ! 1 + spec_bonus (counts s') (M2 s') 1"
proof -
  have "well_formed 2 (UCB1Tuned [0, 0] [0, 0] [0, 0] [0, 0])"
    by (simp add: well_formed_def)
  moreover have "accepted_index 2 0" by (simp add: accepted_index_def)
  ultimately obtain s' where
    s': "update (UCB1Tuned [0, 0] [0, 0] [0, 0] [0, 0]) 0 1 = (Return (), s')"
    and wf: "well_formed 2 s'"
    using update_total by blast
  from tuned_ucbs_formula [OF s'] wf s' show ?thesis
    by (auto simp: well_formed_def)
qed

subsection \<open>Selection by UCB1 and UCB1Tuned\<close>

lemma find_first_zero:
  "find (\<lambda>arm. cs ! arm = (0::int)) [0 ..< length cs] = Some k
     \<longleftrightarrow> k < length cs \<and> cs ! k = 0 \<and> (\<forall>j<k. cs ! j \<noteq> 0)"
  by (auto simp: find_Some_iff)

lemma find_no_zero:
  "find (\<lambda>arm. cs ! arm = (0::int)) [0 ..< length cs] = None \<longleftrightarrow> (\<forall>j<length cs. cs ! j \<noteq> 0)"
  by (auto simp: find_None_iff)

lemma least_zero:
  assumes "i < length cs" "cs ! i = (0::int)"
  shows "\<exists>k. k < length cs \<and> cs ! k = 0 \<and> (\<forall>j<k. cs ! j \<noteq> 0)"
proof -
  define k where "k = (LEAST k. cs ! k = 0)"
  have z: "cs ! k = 0"
    unfolding k_def using assms(2) by (rule LeastI [of "\<lambda>k. cs ! k = 0" i])
  have "k \<le> i"
    unfolding k_def using assms(2) by (rule Least_le [of "\<lambda>k. cs ! k = 0" i])
  then have b: "k < length cs" using assms(1) by simp
  have m: "cs ! j \<noteq> 0" if "j < k" for j
    using that unfolding k_def by (rule not_less_Least [of j "\<lambda>k. cs ! k = 0"])
  from b z m show ?thesis by blast
qed

lemma sum_list_at_least_length:
  "list_all (\<lambda>c. 1 \<le> c) cs \<Longrightarrow> int (length cs) \<le> sum_list (cs :: int list)"
  by (induction cs) auto

lemma pigeonhole_zero:
  assumes "list_all (\<lambda>c. 0 \<le> c) cs" "sum_list cs < int (length cs)"
  shows "\<exists>i<length cs. cs ! i = (0::int)"
proof (rule ccontr)
  assume "\<not> (\<exists>i<length cs. cs ! i = 0)"
  then have nz: "cs ! i \<noteq> 0" if "i < length cs" for i using that by blast
  have "1 \<le> cs ! i" if "i < length cs" for i
  proof -
    have "0 \<le> cs ! i" using assms(1) that by (simp add: list_all_length)
    with nz [OF that] show ?thesis by linarith
  qed
  then have "list_all (\<lambda>c. 1 \<le> c) cs" by (simp add: list_all_length)
  then have "int (length cs) \<le> sum_list cs" by (rule sum_list_at_least_length)
  with assms(2) show False by simp
qed

lemma ucb_select_warm_up:
  assumes "sum_list cs < int (length cs)" "k < length cs" "cs ! k = 0" "\<forall>j<k. cs ! j \<noteq> 0"
  shows "ucb_select cs us = Return (Some (int k))"
proof -
  have "find (\<lambda>arm. cs ! arm = 0) [0 ..< length cs] = Some k"
    using assms(2-4) by (simp only: find_first_zero)
  then show ?thesis using assms(1) by (simp add: ucb_select_def)
qed

lemma ucb_select_argmax:
  "int (length cs) \<le> sum_list cs \<Longrightarrow> ucb_select cs us = returns_arm (np_argmax us)"
  by (simp add: ucb_select_def)

lemma select_next_arm_ucb:
  "is_ucb s \<Longrightarrow> select_next_arm d s = (ucb_select (counts s) (ucbs s), s)"
  by (cases s) simp_all

lemma is_ucb_update: "is_ucb s \<Longrightarrow> is_ucb (snd (update s i r))"
  by (cases s) (simp_all add: Let_def split: prod.splits result.splits)

lemma is_ucb_reset: "is_ucb s \<Longrightarrow> is_ucb (reset s n)"
  by (cases s) simp_all

lemma warm_up_step:
  assumes "is_ucb s" "well_formed n s" "k < n"
    and "ucb_select (counts s) (ucbs s) = Return (Some (int k))"
  shows "\<exists>s'. select_update_run d s (r # rs) = int k # select_update_run d s' rs
     \<and> is_ucb s' \<and> well_formed n s' \<and> counts s' = (counts s)[k := counts s ! k + 1]"
proof -
  have acc: "accepted_index n (int k)" using assms(3) by (simp add: accepted_index_def)
  have arm: "nat (arm_of n (int k)) = k" by (simp add: arm_of_def)
  obtain s' where s': "update s (int k) r = (Return (), s')" "well_formed n s'"
    using update_total [OF assms(2) acc] by blast
  have len: "length (counts s) = n" "length (emp_means s) = n"
    using assms(2) by (simp_all add: well_formed_def)
  have c: "0 \<le> counts s ! nat (arm_of n (int k))"
    using assms(2,3) arm by (simp add: well_formed_nonneg)
  have "counts (snd (update s (int k) r)) = (counts s)[k := counts s ! k + 1]"
    using update_mean_accepted [OF len acc c, of r] arm by (simp add: update_counts)
  then have cs: "counts s' = (counts s)[k := counts s ! k + 1]" using s'(1) by simp
  have "is_ucb s'" using is_ucb_update [OF assms(1), of "int k" r] s'(1) by simp
  moreover have "select_update_run d s (r # rs) = int k # select_update_run d s' rs"
    using s'(1) assms(4) select_next_arm_ucb [OF assms(1), of d] by simp
  ultimately have "select_update_run d s (r # rs) = int k # select_update_run d s' rs
     \<and> is_ucb s' \<and> well_formed n s' \<and> counts s' = (counts s)[k := counts s ! k + 1]"
    using s'(2) cs by (intro conjI)
  then show ?thesis by (rule exI)
qed

lemma ucb1_update_ucbs_value:
  assumes "list_all (\<lambda>c. 0 \<le> c) cs"
  shows "ucb1_update_ucbs cs ms = Return (map (\<lambda>(e, b). e + b) (zip ms
     (map (\<lambda>arm. sqrt (2 * ln (real_of_int (sum_list cs) + 1) / (real_of_int (cs ! arm) + 1 / 10 ^ 7)))
        [0 ..< length cs])))"
proof -
  have "map_result (ucb1_bonus cs) [0 ..< length cs]
     = Return (map (\<lambda>arm. sqrt (2 * ln (real_of_int (sum_list cs) + 1) / (real_of_int (cs ! arm) + 1 / 10 ^ 7))) [0 ..< length cs])"
    using assms by (intro map_result_total ucb1_bonus_total) simp_all
  then show ?thesis by (simp add: ucb1_update_ucbs_def)
qed

lemma large_reward_wins:
  "sqrt (2 * ln 3 / (1 / 10 ^ 7)) < 10001 + sqrt (2 * ln 3 / (2 + 1 / 10 ^ 7))"
proof -
  have "ln (3::real) \<le> 3 - 1" by (rule ln_le_minus_one) simp
  then have "2 * ln 3 / (1 / 10 ^ 7) \<le> (4 * 10 ^ 7 :: real)" by simp
  also have "\<dots> < 10001\<^sup>2" by (simp add: power2_eq_square)
  finally have "sqrt (2 * ln 3 / (1 / 10 ^ 7)) < sqrt (10001\<^sup>2)"
    by (simp only: real_sqrt_less_iff)
  then have "sqrt (2 * ln 3 / (1 / 10 ^ 7)) < 10001" by simp
  moreover have "0 \<le> sqrt (2 * ln 3 / (2 + 1 / 10 ^ 7))" by simp
  ultimately show ?thesis by linarith
qed

lemma ucb_select_range:
  assumes "cs \<noteq> []" and "list_all (\<lambda>c. 0 \<le> c) cs" and "length us = length cs"
  shows "\<exists>k. ucb_select cs us = Return (Some k) \<and> 0 \<le> k \<and> k < int (length cs)"
proof (cases "sum_list cs < int (length cs)")
  case True
  obtain i where "i < length cs" "cs ! i = 0"
    using pigeonhole_zero [OF assms(2) True] by blast
  then obtain k where k: "k < length cs" "cs ! k = 0" "\<forall>j<k. cs ! j \<noteq> 0"
    using least_zero by blast
  have "ucb_select cs us = Return (Some (int k))"
    using True k by (rule ucb_select_warm_up)
  then show ?thesis using k(1) by simp
next
  case False
  have "us \<noteq> []" using assms(1,3) by auto
  then obtain k where k: "np_argmax us = Return (int k)"
    using np_argmax_nonempty by blast
  have "int k < int (length us)" using np_argmax_bound [OF k] by simp
  moreover have "ucb_select cs us = Return (Some (int k))"
    using False k by (simp add: ucb_select_def returns_arm_def)
  ultimately show ?thesis using assms(3) by simp
qed

lemma well_formed_ucbs: "is_ucb s \<Longrightarrow> well_formed n s \<Longrightarrow> length (ucbs s) = n"
  by (cases s) (simp_all add: well_formed_def)

lemma run_updates_is_ucb: "is_ucb s \<Longrightarrow> is_ucb (snd (run_updates s us))"
proof (induction us arbitrary: s)
  case Nil
  then show ?case by simp
next
  case (Cons u us)
  obtain i r where u: "u = (i, r)" by (cases u)
  have "is_ucb (snd (update s i r))" using Cons.prems by (rule is_ucb_update)
  with Cons.IH [of "snd (update s i r)"] u show ?case
    by (auto split: prod.splits result.splits)
qed

text \<open>
  C10 (as amended). For UCB1 and UCB1Tuned, whenever \<open>counts\<close> is non-empty, no count
  is negative and \<open>ucbs\<close> has as many entries as \<open>counts\<close>, \<open>select_next_arm\<close> returns an
  arm index from 0 to \<open>len(counts) - 1\<close>: it raises nothing and does not end without a
  \<open>return\<close>. In the warm-up branch a count of 0 exists because the counts are
  non-negative and add up to less than their number. The three conditions hold after
  \<open>reset(n_arms)\<close> with a positive \<open>n_arms\<close> and any sequence of \<open>update\<close> calls with
  accepted indices, so there the call returns an index below \<open>n_arms\<close>.
\<close>

theorem ucb_in_range:
  assumes "s = UCB1 cs ms us \<or> s = UCB1Tuned cs ms m2 us"
  shows "(cs \<noteq> [] \<and> list_all (\<lambda>c. 0 \<le> c) cs \<and> length us = length cs \<longrightarrow>
            (\<exists>k. select_next_arm d s = (Return (Some k), s) \<and> 0 \<le> k \<and> k < int (length cs)))
       \<and> (0 < n_arms \<and> list_all (\<lambda>(i, r). accepted_index (nat n_arms) i) calls \<longrightarrow>
            (\<exists>s' k. run_updates (reset s n_arms) calls = (Return (), s')
                \<and> select_next_arm d s' = (Return (Some k), s') \<and> 0 \<le> k \<and> k < n_arms))"
proof (intro conjI impI)
  have sel: "select_next_arm d s = (ucb_select cs us, s)" using assms by auto
  assume "cs \<noteq> [] \<and> list_all (\<lambda>c. 0 \<le> c) cs \<and> length us = length cs"
  then show "\<exists>k. select_next_arm d s = (Return (Some k), s) \<and> 0 \<le> k \<and> k < int (length cs)"
    using ucb_select_range [of cs us] sel by simp
next
  assume a: "0 < n_arms \<and> list_all (\<lambda>(i, r). accepted_index (nat n_arms) i) calls"
  have u: "is_ucb (reset s n_arms)" using assms by auto
  obtain s' where s': "run_updates (reset s n_arms) calls = (Return (), s')"
    and wf: "well_formed (nat n_arms) s'"
    using run_updates_total [OF well_formed_reset, of n_arms calls s] a by blast
  have u': "is_ucb s'" using run_updates_is_ucb [OF u, of calls] s' by simp
  have len: "length (counts s') = nat n_arms" and nonneg: "list_all (\<lambda>c. 0 \<le> c) (counts s')"
    using wf by (simp_all add: well_formed_def)
  have ne: "counts s' \<noteq> []" using len a by auto
  have "length (ucbs s') = length (counts s')"
    using well_formed_ucbs [OF u' wf] len by simp
  from ucb_select_range [OF ne nonneg this]
  obtain k where "ucb_select (counts s') (ucbs s') = Return (Some k)" "0 \<le> k"
    "k < int (length (counts s'))"
    by blast
  then have "select_next_arm d s' = (Return (Some k), s') \<and> 0 \<le> k \<and> k < n_arms"
    using select_next_arm_ucb [OF u', of d] len a by simp
  with s' show "\<exists>s' k. run_updates (reset s n_arms) calls = (Return (), s')
      \<and> select_next_arm d s' = (Return (Some k), s') \<and> 0 \<le> k \<and> k < n_arms"
    by blast
qed

theorem ucb_in_range_witness:
  "(\<exists>k. select_next_arm first_arm_draws (UCB1 [1, 0, 0] [2, 0, 0] [5, 0, 0])
          = (Return (Some k), UCB1 [1, 0, 0] [2, 0, 0] [5, 0, 0]) \<and> 0 \<le> k \<and> k < 3)
   \<and> (\<exists>k. select_next_arm first_arm_draws (UCB1Tuned [1, 2] [2, 0] [0, 0] [5, 7])
          = (Return (Some k), UCB1Tuned [1, 2] [2, 0] [0, 0] [5, 7]) \<and> 0 \<le> k \<and> k < 2)
   \<and> (\<exists>s' k. run_updates (reset (UCB1Tuned [] [] [] []) 2) [(1, 1), (1, 0), (- 1, 1)]
                  = (Return (), s')
          \<and> select_next_arm first_arm_draws s' = (Return (Some k), s') \<and> 0 \<le> k \<and> k < 2)"
proof -
  note first = ucb_in_range [OF disjI1 [OF refl],
      where cs = "[1, 0, 0]" and ms = "[2, 0, 0]" and us = "[5, 0, 0]" and d = first_arm_draws
        and n_arms = 1 and calls = "[]", THEN conjunct1, THEN mp]
  note second = ucb_in_range [OF disjI2 [OF refl],
      where cs = "[1, 2]" and ms = "[2, 0]" and ?m2.0 = "[0, 0]" and us = "[5, 7]"
        and d = first_arm_draws and n_arms = 1 and calls = "[]", THEN conjunct1, THEN mp]
  note third = ucb_in_range [OF disjI2 [OF refl],
      where cs = "[]" and ms = "[]" and ?m2.0 = "[]" and us = "[]" and d = first_arm_draws
        and n_arms = 2 and calls = "[(1, 1), (1, 0), (- 1, 1)]", THEN conjunct2, THEN mp]
  have c1: "\<exists>k. select_next_arm first_arm_draws (UCB1 [1, 0, 0] [2, 0, 0] [5, 0, 0])
          = (Return (Some k), UCB1 [1, 0, 0] [2, 0, 0] [5, 0, 0]) \<and> 0 \<le> k \<and> k < 3"
    using first by simp
  have c2: "\<exists>k. select_next_arm first_arm_draws (UCB1Tuned [1, 2] [2, 0] [0, 0] [5, 7])
          = (Return (Some k), UCB1Tuned [1, 2] [2, 0] [0, 0] [5, 7]) \<and> 0 \<le> k \<and> k < 2"
    using second by simp
  have "(0::int) < 2 \<and> list_all (\<lambda>(i, r). accepted_index (nat 2) i) [(1, 1), (1, 0), (- 1, 1 :: real)]"
    by (simp add: accepted_index_def)
  from third [OF this] c1 c2 show ?thesis by (intro conjI)
qed

text \<open>
  C10 as stated fails on an object whose \<open>ucbs\<close> does not match \<open>counts\<close>: with counts
  \<open>[1, 1]\<close> the call raises ValueError when \<open>ucbs\<close> is empty and returns 2 when \<open>ucbs\<close>
  is \<open>[0, 0, 5]\<close>.
\<close>

theorem ucb_ucbs_mismatch_counterexample:
  "select_next_arm first_arm_draws (UCB1 [1, 1] [0, 0] [])
     = (Raise ValueError, UCB1 [1, 1] [0, 0] [])
   \<and> select_next_arm first_arm_draws (UCB1 [1, 1] [0, 0] [0, 0, 5])
     = (Return (Some 2), UCB1 [1, 1] [0, 0] [0, 0, 5])"
  by (simp add: ucb_select_def np_argmax_def returns_arm_def)

lemma warm_up_five:
  assumes "is_ucb s"
  shows "select_update_run d (reset s 5) [r1, r2, r3, r4, r5] = [0, 1, 2, 3, 4]"
proof -
  have u0: "is_ucb (reset s 5)" using assms by (rule is_ucb_reset)
  have w0: "well_formed 5 (reset s 5)" using well_formed_reset [of 5 s] by simp
  have c0: "counts (reset s 5) = [0, 0, 0, 0, 0]"
    by (cases s) (simp_all add: eval_nat_numeral)
  have sel: "ucb_select [0, 0, 0, 0, 0] us = Return (Some (int 0))"
    "ucb_select [1, 0, 0, 0, 0] us = Return (Some (int 1))"
    "ucb_select [1, 1, 0, 0, 0] us = Return (Some (int 2))"
    "ucb_select [1, 1, 1, 0, 0] us = Return (Some (int 3))"
    "ucb_select [1, 1, 1, 1, 0] us = Return (Some (int 4))" for us
    by (simp_all add: ucb_select_def upt_rec)
  obtain s1 where s1: "select_update_run d (reset s 5) [r1, r2, r3, r4, r5]
      = int 0 # select_update_run d s1 [r2, r3, r4, r5]"
    "is_ucb s1" "well_formed 5 s1" "counts s1 = [1, 0, 0, 0, 0]"
    using warm_up_step [OF u0 w0, of 0 d r1 "[r2, r3, r4, r5]"] sel(1) c0 by auto
  obtain s2 where s2: "select_update_run d s1 [r2, r3, r4, r5]
      = int 1 # select_update_run d s2 [r3, r4, r5]"
    "is_ucb s2" "well_formed 5 s2" "counts s2 = [1, 1, 0, 0, 0]"
    using warm_up_step [OF s1(2,3), of 1 d r2 "[r3, r4, r5]"] sel(2) s1(4) by auto
  obtain s3 where s3: "select_update_run d s2 [r3, r4, r5]
      = int 2 # select_update_run d s3 [r4, r5]"
    "is_ucb s3" "well_formed 5 s3" "counts s3 = [1, 1, 1, 0, 0]"
    using warm_up_step [OF s2(2,3), of 2 d r3 "[r4, r5]"] sel(3) s2(4)
    by (auto simp: eval_nat_numeral)
  obtain s4 where s4: "select_update_run d s3 [r4, r5]
      = int 3 # select_update_run d s4 [r5]"
    "is_ucb s4" "well_formed 5 s4" "counts s4 = [1, 1, 1, 1, 0]"
    using warm_up_step [OF s3(2,3), of 3 d r4 "[r5]"] sel(4) s3(4)
    by (auto simp: eval_nat_numeral)
  obtain s5 where s5: "select_update_run d s4 [r5] = int 4 # select_update_run d s5 []"
    using warm_up_step [OF s4(2,3), of 4 d r5 "[]"] sel(5) s4(4)
    by (auto simp: eval_nat_numeral)
  show ?thesis
    unfolding s1(1) s2(1) s3(1) s4(1) s5 by simp
qed

text \<open>
  C4 (as amended). For UCB1 and UCB1Tuned: whenever the counts add up to less than the
  number of arms and some arm has count 0, \<open>select_next_arm\<close> returns the lowest index
  whose count is 0; whenever the counts add up to at least the number of arms, in
  particular once every arm has been pulled, it returns \<open>np.argmax(self.ucbs)\<close>. After
  \<open>reset(5)\<close>, five rounds of \<open>select_next_arm\<close>, each followed by \<open>update\<close> of the arm
  returned with any reward, return the arms 0, 1, 2, 3, 4 in this order.
\<close>

theorem ucb_warm_up_then_argmax:
  assumes "s = UCB1 cs ms us \<or> s = UCB1Tuned cs ms m2 us"
  shows "(sum_list cs < int (length cs) \<and> (\<exists>i<length cs. cs ! i = 0) \<longrightarrow>
            (\<exists>k<length cs. select_next_arm d s = (Return (Some (int k)), s)
                \<and> cs ! k = 0 \<and> (\<forall>j<k. cs ! j \<noteq> 0)))
       \<and> (int (length cs) \<le> sum_list cs \<longrightarrow>
            select_next_arm d s = (returns_arm (np_argmax us), s))
       \<and> (list_all (\<lambda>c. 1 \<le> c) cs \<longrightarrow>
            select_next_arm d s = (returns_arm (np_argmax us), s))
       \<and> select_update_run d (reset s 5) [r1, r2, r3, r4, r5] = [0, 1, 2, 3, 4]"
proof (intro conjI impI)
  have sel: "select_next_arm d s = (ucb_select cs us, s)" using assms by auto
  {
    assume a: "sum_list cs < int (length cs) \<and> (\<exists>i<length cs. cs ! i = 0)"
    then obtain k where k: "k < length cs" "cs ! k = 0" "\<forall>j<k. cs ! j \<noteq> 0"
      using least_zero by blast
    have "ucb_select cs us = Return (Some (int k))"
      using a k by (intro ucb_select_warm_up) simp_all
    then show "\<exists>k<length cs. select_next_arm d s = (Return (Some (int k)), s)
                \<and> cs ! k = 0 \<and> (\<forall>j<k. cs ! j \<noteq> 0)"
      using sel k by auto
  }
  {
    assume "int (length cs) \<le> sum_list cs"
    then show "select_next_arm d s = (returns_arm (np_argmax us), s)"
      using sel by (simp add: ucb_select_argmax)
  }
  {
    assume "list_all (\<lambda>c. 1 \<le> c) cs"
    then have "int (length cs) \<le> sum_list cs" by (rule sum_list_at_least_length)
    then show "select_next_arm d s = (returns_arm (np_argmax us), s)"
      using sel by (simp add: ucb_select_argmax)
  }
  have "is_ucb s" using assms by auto
  then show "select_update_run d (reset s 5) [r1, r2, r3, r4, r5] = [0, 1, 2, 3, 4]"
    by (rule warm_up_five)
qed

theorem ucb_warm_up_then_argmax_witness:
  "(\<exists>k<3. select_next_arm first_arm_draws (UCB1 [1, 0, 0] [2, 0, 0] [5, 0, 0])
            = (Return (Some (int k)), UCB1 [1, 0, 0] [2, 0, 0] [5, 0, 0])
          \<and> [1, 0, 0 :: int] ! k = 0 \<and> (\<forall>j<k. [1, 0, 0 :: int] ! j \<noteq> 0))
   \<and> select_next_arm first_arm_draws (UCB1Tuned [1, 2] [2, 0] [0, 0] [5, 7])
        = (Return (Some 1), UCB1Tuned [1, 2] [2, 0] [0, 0] [5, 7])
   \<and> select_update_run first_arm_draws (reset (UCB1 [] [] []) 5) [1, 0, 1, 0, 1]
        = [0, 1, 2, 3, 4]
   \<and> select_update_run first_arm_draws (reset (UCB1Tuned [] [] [] []) 5) [1, 0, 1, 0, 1]
        = [0, 1, 2, 3, 4]"
proof -
  note first = ucb_warm_up_then_argmax [OF disjI1 [OF refl],
        of "[1, 0, 0]" first_arm_draws "[2, 0, 0]" "[5, 0, 0]" 1 0 1 0 1]
  note second = ucb_warm_up_then_argmax [OF disjI2 [OF refl],
        of "[1, 2]" first_arm_draws "[2, 0]" "[0, 0]" "[5, 7]" 1 0 1 0 1]
  note third = ucb_warm_up_then_argmax [OF disjI1 [OF refl],
        of "[]" first_arm_draws "[]" "[]" 1 0 1 0 1]
  note fourth = ucb_warm_up_then_argmax [OF disjI2 [OF refl],
        of "[]" first_arm_draws "[]" "[]" "[]" 1 0 1 0 1]
  have "\<exists>i<length [1, 0, 0 :: int]. [1, 0, 0 :: int] ! i = 0"
    by (rule exI [of _ 1]) simp
  then have "sum_list [1, 0, 0 :: int] < int (length [1, 0, 0 :: int])
      \<and> (\<exists>i<length [1, 0, 0 :: int]. [1, 0, 0 :: int] ! i = 0)"
    by simp
  from first [THEN conjunct1, THEN mp, OF this]
  have c1: "\<exists>k<3. select_next_arm first_arm_draws (UCB1 [1, 0, 0] [2, 0, 0] [5, 0, 0])
            = (Return (Some (int k)), UCB1 [1, 0, 0] [2, 0, 0] [5, 0, 0])
          \<and> [1, 0, 0 :: int] ! k = 0 \<and> (\<forall>j<k. [1, 0, 0 :: int] ! j \<noteq> 0)"
    by (simp only: length_Cons list.size numeral_3_eq_3)
  have "int (length [1, 2 :: int]) \<le> sum_list [1, 2 :: int]" by simp
  from second [THEN conjunct2, THEN conjunct1, THEN mp, OF this]
  have c2: "select_next_arm first_arm_draws (UCB1Tuned [1, 2] [2, 0] [0, 0] [5, 7])
        = (Return (Some 1), UCB1Tuned [1, 2] [2, 0] [0, 0] [5, 7])"
    by (simp add: np_argmax_def returns_arm_def)
  note c3 = third [THEN conjunct2, THEN conjunct2, THEN conjunct2]
  note c4 = fourth [THEN conjunct2, THEN conjunct2, THEN conjunct2]
  from c1 c2 c3 c4 show ?thesis by (intro conjI)
qed

text \<open>
  C4 as stated fails when an arm with count 0 remains after the counts have reached the
  number of arms: after \<open>reset(2)\<close> and two calls \<open>update(1, 10001.0)\<close> the counts are
  \<open>[0, 2]\<close>, the test \<open>sum(self.counts) < len(self.counts)\<close> is false, and the argmax of
  \<open>ucbs\<close> is arm 1, not the unpulled arm 0.
\<close>

theorem ucb_zero_count_not_selected_counterexample:
  "fst (run_updates (reset (UCB1 [] [] []) 2) [(1, 10001), (1, 10001)]) = Return ()
   \<and> counts (snd (run_updates (reset (UCB1 [] [] []) 2) [(1, 10001), (1, 10001)])) = [0, 2]
   \<and> fst (select_next_arm first_arm_draws
             (snd (run_updates (reset (UCB1 [] [] []) 2) [(1, 10001), (1, 10001)])))
       = Return (Some 1)"
proof -
  have r: "reset (UCB1 [] [] []) 2 = UCB1 [0, 0] [0, 0] [0, 0]"
    by (simp add: eval_nat_numeral)
  have m1: "update_mean [0, 0] [0, 0] 1 10001 = (Return (0, 10001), [0, 1], [0, 10001])"
    by (simp add: update_mean_def py_index_def Let_def)
  have m2: "update_mean [0, 1] [0, 10001] 1 10001 = (Return (10001, 10001), [0, 2], [0, 10001])"
    by (simp add: update_mean_def py_index_def Let_def)
  have u1: "ucb1_update_ucbs [0, 1] [0, 10001]
      = Return [0 + sqrt (2 * ln 2 / (1 / 10 ^ 7)), 10001 + sqrt (2 * ln 2 / (1 + 1 / 10 ^ 7))]"
    by (simp add: ucb1_update_ucbs_value upt_rec)
  have u2: "ucb1_update_ucbs [0, 2] [0, 10001]
      = Return [0 + sqrt (2 * ln 3 / (1 / 10 ^ 7)), 10001 + sqrt (2 * ln 3 / (2 + 1 / 10 ^ 7))]"
    by (simp add: ucb1_update_ucbs_value upt_rec)
  have run: "run_updates (reset (UCB1 [] [] []) 2) [(1, 10001), (1, 10001)]
      = (Return (), UCB1 [0, 2] [0, 10001]
           [0 + sqrt (2 * ln 3 / (1 / 10 ^ 7)), 10001 + sqrt (2 * ln 3 / (2 + 1 / 10 ^ 7))])"
    unfolding r by (simp add: m1 m2 u1 u2 del: add_0 add.left_neutral)
  show ?thesis
    unfolding run using large_reward_wins
    by (simp add: ucb_select_def np_argmax_def returns_arm_def)
qed

end
